theory Spec2Isabelle
  imports Complex_Main
begin

section \<open>The blooming-flower animation: geometry helpers and frame driver\<close>

text \<open>
  A shallow embedding of \<^verbatim>\<open>enhanced_matplotlib_flower.py\<close>. Python floats are
  modelled as exact reals, Python ints as \<open>int\<close> (frames, start frames) or \<open>nat\<close>
  (the phase number and the petal index, which the code only ever sets to 0 or
  increments). The module-level globals and the drawable artists the driver mutates
  form one record that the driver takes and returns. The artists' setters
  (\<^verbatim>\<open>set_alpha\<close>, \<^verbatim>\<open>set_path\<close>, \<^verbatim>\<open>set_data\<close>, ...) are modelled as plain stores.
\<close>

subsection \<open>Constants of the module\<close>

abbreviation num_petals :: nat where "num_petals \<equiv> 12"
abbreviation petal_length :: real where "petal_length \<equiv> 50"
abbreviation petal_width :: real where "petal_width \<equiv> 30"
abbreviation center_radius :: real where "center_radius \<equiv> 25"
abbreviation stem_height :: real where "stem_height \<equiv> 220"
abbreviation leaf_size :: real where "leaf_size \<equiv> 30"
abbreviation center_fade_duration :: int where "center_fade_duration \<equiv> 40"
abbreviation bloom_duration :: int where "bloom_duration \<equiv> 40"
abbreviation bloom_stagger :: int where "bloom_stagger \<equiv> 20"
abbreviation unfurl_duration :: int where "unfurl_duration \<equiv> 20"
abbreviation unfurl_stagger :: int where "unfurl_stagger \<equiv> 10"
abbreviation phase_delay :: int where "phase_delay \<equiv> 20"
abbreviation sway_speed :: real where "sway_speed \<equiv> 3 / 100"
abbreviation label_duration :: int where "label_duration \<equiv> 10"

definition leaf_positions :: "real list" where
  "leaf_positions = [-70, -10, 60]"

subsection \<open>Geometry helpers\<close>

type_synonym point = "real \<times> real"

type_synonym matrix = "(real \<times> real) \<times> (real \<times> real)"

definition radians :: "real \<Rightarrow> real" where
  "radians d = d * pi / 180"

definition get_rotation_matrix :: "real \<Rightarrow> matrix" where
  "get_rotation_matrix angle = ((cos angle, - sin angle), (sin angle, cos angle))"

text \<open>The product \<^verbatim>\<open>rotation_matrix @ np.array([dx, dy])\<close>.\<close>

definition matvec :: "matrix \<Rightarrow> point \<Rightarrow> point" where
  "matvec m v =
     (fst (fst m) * fst v + snd (fst m) * snd v,
      fst (snd m) * fst v + snd (snd m) * snd v)"

text \<open>Python's \<^verbatim>\<open>list.insert(i, x)\<close> for \<open>i \<ge> 0\<close>: past the end it appends.\<close>

definition py_insert :: "nat \<Rightarrow> 'a \<Rightarrow> 'a list \<Rightarrow> 'a list" where
  "py_insert i x xs = take i xs @ x # drop i xs"

datatype path_code = MOVETO | CURVE3 | CLOSEPOLY

record path =
  vertices :: "point list"
  codes :: "path_code list"

datatype error = ValueError

text \<open>
  Lines 69--84 of \<^verbatim>\<open>create_petal_path\<close>: the vertex list handed to the \<^verbatim>\<open>Path\<close>
  constructor. Four vertices are listed, then the two bulge points are inserted at
  positions 2 and 3.
\<close>

definition petal_verts :: "real \<Rightarrow> real \<Rightarrow> real \<Rightarrow> real \<Rightarrow> real \<Rightarrow> real \<Rightarrow> point list" where
  "petal_verts center_x center_y angle_deg len width rotation =
     (let angle_rad = radians (angle_deg + rotation);
          verts0 =
            [(center_x + len * cos (angle_rad - pi / 2),
              center_y + len * sin (angle_rad - pi / 2)),
             (center_x + len * 1.2 * cos angle_rad,
              center_y + len * 1.2 * sin angle_rad),
             (center_x + len * cos (angle_rad + pi / 2),
              center_y + len * sin (angle_rad + pi / 2)),
             (center_x + len * 0.8 * cos (angle_rad - pi / 2),
              center_y + len * 0.8 * sin (angle_rad - pi / 2))];
          mid_x = center_x + (len * 0.5) * cos angle_rad;
          mid_y = center_y + (len * 0.5) * sin angle_rad;
          verts1 = py_insert 2 (mid_x - width / 2 * sin angle_rad,
                                mid_y + width / 2 * cos angle_rad) verts0;
          verts2 = py_insert 3 (mid_x + width / 2 * sin angle_rad,
                                mid_y - width / 2 * cos angle_rad) verts1
      in verts2)"

definition petal_codes :: "path_code list" where
  "petal_codes = [MOVETO, CURVE3, CURVE3, CURVE3, CLOSEPOLY]"

text \<open>
  \<^verbatim>\<open>Path(verts, codes)\<close> belongs to the plotting library, not to this repository.
  The model takes the library's acceptance test as a parameter \<open>valid\<close>: the
  constructor stores the two lists when \<open>valid\<close> accepts them and raises
  \<^verbatim>\<open>ValueError\<close> otherwise.
\<close>

type_synonym path_check = "point list \<Rightarrow> path_code list \<Rightarrow> bool"

definition Path_init :: "path_check \<Rightarrow> point list \<Rightarrow> path_code list \<Rightarrow> error + path" where
  "Path_init valid verts cs =
     (if valid verts cs then Inr \<lparr>vertices = verts, codes = cs\<rparr> else Inl ValueError)"

text \<open>
  The test matplotlib's constructor makes (\<^verbatim>\<open>matplotlib/path.py\<close>, \<^verbatim>\<open>Path.__init__\<close>):
  for a non-empty vertex array, \<^verbatim>\<open>codes\<close> must have the same length as the vertices
  and start with \<^verbatim>\<open>MOVETO\<close>, else \<^verbatim>\<open>ValueError\<close> is raised.
\<close>

definition mpl_valid :: path_check where
  "mpl_valid verts cs =
     (verts = [] \<or> (length cs = length verts \<and> (case cs of [] \<Rightarrow> True | c # _ \<Rightarrow> c = MOVETO)))"

text \<open>A constructor that accepts every argument, for statements about the driver's
  logic when outlines can be built.\<close>

definition accept_all :: path_check where
  "accept_all verts cs = True"

definition create_petal_path ::
  "path_check \<Rightarrow> real \<Rightarrow> real \<Rightarrow> real \<Rightarrow> real \<Rightarrow> real \<Rightarrow> real \<Rightarrow> error + path" where
  "create_petal_path valid center_x center_y angle_deg len width rotation =
     Path_init valid (petal_verts center_x center_y angle_deg len width rotation) petal_codes"

subsection \<open>Artists and animation state\<close>

record petal =
  p_path :: path
  p_alpha :: real

record leaf =
  l_center :: point
  l_width :: real
  l_height :: real
  l_alpha :: real

record state =
  frame_count :: int
  current_petal_index :: nat
  animation_phase :: nat
  petal_bloom_starts :: "int list"
  leaf_unfurl_starts :: "int list"
  sway_angle :: real
  center_alpha :: real
  petals :: "petal list"
  stem_xdata :: "real list"
  stem_ydata :: "real list"
  stem_alpha :: real
  leaves :: "leaf list"
  title_alpha :: real
  title_position :: point
  label_text :: string
  label_alpha :: real

text \<open>A call either returns, or raises and leaves the mutated globals behind.\<close>

datatype 'a outcome = Done 'a | Raised error 'a

fun final :: "'a outcome \<Rightarrow> 'a" where
  "final (Done s) = s"
| "final (Raised e s) = s"

fun raised :: "'a outcome \<Rightarrow> bool" where
  "raised (Done s) = False"
| "raised (Raised e s) = True"

subsection \<open>Module set-up (lines 53--128)\<close>

text \<open>The loop of lines 96--103: one zero-size petal per index; the first
  \<^verbatim>\<open>create_petal_path\<close> that raises ends the set-up.\<close>

fun setup_petals :: "path_check \<Rightarrow> nat list \<Rightarrow> petal list \<Rightarrow> error + petal list" where
  "setup_petals valid [] acc = Inr acc"
| "setup_petals valid (i # is) acc =
     (case create_petal_path valid 0 0 (real i * (360 / real num_petals)) 0 0 0 of
        Inl e \<Rightarrow> Inl e
      | Inr p \<Rightarrow> setup_petals valid is (acc @ [\<lparr>p_path = p, p_alpha = 0\<rparr>]))"

text \<open>The loop of lines 112--120: a left and a right leaf per stem position.\<close>

definition setup_leaves :: "leaf list" where
  "setup_leaves =
     concat (map (\<lambda>pos. [\<lparr>l_center = (-40, pos), l_width = 0, l_height = 0, l_alpha = 0\<rparr>,
                          \<lparr>l_center = (40, pos), l_width = 0, l_height = 0, l_alpha = 0\<rparr>])
                 leaf_positions)"

text \<open>The globals and artists once set-up is through, given the petals built.
  \<^verbatim>\<open>leaf_unfurl_starts\<close> is \<^verbatim>\<open>[0] * (num_petals // 2 * 2)\<close>, which has 12 entries.\<close>

definition init_state :: "petal list \<Rightarrow> state" where
  "init_state ps =
     \<lparr>frame_count = 0, current_petal_index = 0, animation_phase = 0,
      petal_bloom_starts = replicate num_petals 0,
      leaf_unfurl_starts = replicate (num_petals div 2 * 2) 0,
      sway_angle = 0, center_alpha = 0, petals = ps,
      stem_xdata = [], stem_ydata = [], stem_alpha = 0,
      leaves = setup_leaves, title_alpha = 0, title_position = (0, 120),
      label_text = [], label_alpha = 0\<rparr>"

definition module_setup :: "path_check \<Rightarrow> error + state" where
  "module_setup valid =
     (case setup_petals valid [0..<num_petals] [] of
        Inl e \<Rightarrow> Inl e
      | Inr ps \<Rightarrow> Inr (init_state ps))"

subsection \<open>The driver \<^verbatim>\<open>animate\<close> (lines 130--250)\<close>

text \<open>Phase 0, lines 141--150.\<close>

definition center_phase :: "int \<Rightarrow> state \<Rightarrow> state" where
  "center_phase frame s =
     (let progress = min (real_of_int frame / real_of_int center_fade_duration) 1;
          s1 = s\<lparr>center_alpha := progress, title_alpha := progress,
                 label_text := ''Center Appearing...'',
                 label_alpha :=
                   (if frame < label_duration * 2
                    then min (real_of_int (frame mod (label_duration * 2)) / real_of_int label_duration) 1
                    else 0)\<rparr>
      in if frame \<ge> center_fade_duration + phase_delay
         then s1\<lparr>animation_phase := 1, current_petal_index := 0, frame_count := 0\<rparr>
         else s1)"

text \<open>The label fade of lines 155--156 and 186--187.\<close>

definition label_fade :: "int \<Rightarrow> real" where
  "label_fade frame =
     (let label_progress = real_of_int (frame mod (label_duration * 3)) / real_of_int label_duration
      in if label_progress < 1 then min label_progress 1 else max (2 - label_progress) 0)"

text \<open>Lines 160--161: a started petal's progress.\<close>

definition bloom_progress :: "int \<Rightarrow> int \<Rightarrow> real" where
  "bloom_progress frame start = min (real_of_int (frame - start) / real_of_int bloom_duration) 1"

text \<open>The body of the loop of lines 158--171, for petal \<open>i\<close>.\<close>

definition bloom_petal :: "path_check \<Rightarrow> int \<Rightarrow> nat \<Rightarrow> state \<Rightarrow> state outcome" where
  "bloom_petal valid frame i s =
     (if petal_bloom_starts s ! i > 0 then
        (let progress = bloom_progress frame (petal_bloom_starts s ! i);
             alpha = progress
         in if progress > 0 then
              (case create_petal_path valid 0 0 (real i * (360 / real num_petals))
                      (petal_length * progress) (petal_width * progress) (progress * 15) of
                 Inl e \<Rightarrow> Raised e s
               | Inr pth \<Rightarrow>
                   Done (s\<lparr>petals := (petals s)[i := (petals s ! i)\<lparr>p_path := pth, p_alpha := alpha\<rparr>]\<rparr>))
            else Done (s\<lparr>petals := (petals s)[i := (petals s ! i)\<lparr>p_alpha := 0\<rparr>]\<rparr>))
      else Done s)"

fun bloom_loop :: "path_check \<Rightarrow> int \<Rightarrow> nat list \<Rightarrow> state \<Rightarrow> state outcome" where
  "bloom_loop valid frame [] s = Done s"
| "bloom_loop valid frame (i # is) s =
     (case bloom_petal valid frame i s of
        Raised e s' \<Rightarrow> Raised e s'
      | Done s' \<Rightarrow> bloom_loop valid frame is s')"

text \<open>Lines 173--176: start the next petal.\<close>

definition trigger_petal :: "int \<Rightarrow> state \<Rightarrow> state" where
  "trigger_petal frame s =
     (if frame mod bloom_stagger = 0 \<and> current_petal_index s < num_petals
      then s\<lparr>petal_bloom_starts := (petal_bloom_starts s)[current_petal_index s := frame],
             current_petal_index := current_petal_index s + 1\<rparr>
      else s)"

text \<open>Lines 178--181; \<^verbatim>\<open>petal_bloom_starts[-1]\<close> is the last entry.\<close>

definition petals_done :: "int \<Rightarrow> state \<Rightarrow> state" where
  "petals_done frame s =
     (if current_petal_index s \<ge> num_petals \<and> frame - last (petal_bloom_starts s) \<ge> bloom_duration
      then s\<lparr>animation_phase := 2, frame_count := 0\<rparr>
      else s)"

text \<open>Phase 1, lines 154--181.\<close>

definition petals_phase :: "path_check \<Rightarrow> int \<Rightarrow> state \<Rightarrow> state outcome" where
  "petals_phase valid frame s =
     (let s1 = s\<lparr>label_text := ''Petals Blooming...'', label_alpha := label_fade frame\<rparr>
      in case bloom_loop valid frame [0..<length (petals s1)] s1 of
           Raised e s' \<Rightarrow> Raised e s'
         | Done s2 \<Rightarrow> Done (petals_done frame (trigger_petal frame s2)))"

text \<open>The body of the loop of lines 195--208, for leaf \<open>i\<close>.\<close>

definition unfurl_leaf :: "int \<Rightarrow> nat \<Rightarrow> state \<Rightarrow> state" where
  "unfurl_leaf frame i s =
     (let side_delay = (if i mod 2 = 0 then 0 else unfurl_stagger);
          s1 = (if leaf_unfurl_starts s ! i = 0 \<and> frame mod unfurl_duration = side_delay
                then s\<lparr>leaf_unfurl_starts := (leaf_unfurl_starts s)[i := frame]\<rparr>
                else s)
      in if leaf_unfurl_starts s1 ! i > 0 then
           (let elapsed = frame - leaf_unfurl_starts s1 ! i;
                progress = min (real_of_int elapsed / real_of_int unfurl_duration) 1;
                size = leaf_size * progress;
                alpha = progress
            in s1\<lparr>leaves := (leaves s1)[i := (leaves s1 ! i)
                     \<lparr>l_width := size, l_height := size * 0.7, l_alpha := alpha\<rparr>]\<rparr>)
         else s1)"

text \<open>Lines 210--213.\<close>

definition leaves_done :: "int \<Rightarrow> state \<Rightarrow> state" where
  "leaves_done frame s =
     (if list_all (\<lambda>i. leaf_unfurl_starts s ! i > 0 \<and> frame - leaf_unfurl_starts s ! i \<ge> unfurl_duration)
           [0..<length (leaves s)]
      then s\<lparr>animation_phase := 3, frame_count := 0\<rparr>
      else s)"

text \<open>Phase 2, lines 185--213.\<close>

definition stem_phase :: "int \<Rightarrow> state \<Rightarrow> state" where
  "stem_phase frame s =
     (let s1 = s\<lparr>label_text := ''Leaves Unfurling...'', label_alpha := label_fade frame\<rparr>;
          s2 = (if frame = 0
                then s1\<lparr>stem_xdata := [0, 0], stem_ydata := [center_radius, stem_height],
                        stem_alpha := 1\<rparr>
                else s1);
          s3 = fold (unfurl_leaf frame) [0..<length (leaves s2)] s2
      in leaves_done frame s3)"

text \<open>The body of the loop of lines 221--229, for petal \<open>i\<close>.\<close>

definition sway_petal :: "path_check \<Rightarrow> matrix \<Rightarrow> nat \<Rightarrow> state \<Rightarrow> state outcome" where
  "sway_petal valid rotation_matrix i s =
     (let base_angle = real i * (360 / real num_petals);
          dx = (petal_length / 2) * cos (radians base_angle);
          dy = (petal_length / 2) * sin (radians base_angle);
          rotated = matvec rotation_matrix (dx, dy)
      in case create_petal_path valid (fst rotated) (snd rotated) base_angle petal_length petal_width 0 of
           Inl e \<Rightarrow> Raised e s
         | Inr pth \<Rightarrow> Done (s\<lparr>petals := (petals s)[i := (petals s ! i)\<lparr>p_path := pth, p_alpha := 1\<rparr>]\<rparr>))"

fun sway_petals :: "path_check \<Rightarrow> matrix \<Rightarrow> nat list \<Rightarrow> state \<Rightarrow> state outcome" where
  "sway_petals valid rotation_matrix [] s = Done s"
| "sway_petals valid rotation_matrix (i # is) s =
     (case sway_petal valid rotation_matrix i s of
        Raised e s' \<Rightarrow> Raised e s'
      | Done s' \<Rightarrow> sway_petals valid rotation_matrix is s')"

text \<open>The body of the loop of lines 232--240, for leaf \<open>i\<close>.\<close>

definition sway_leaf :: "matrix \<Rightarrow> nat \<Rightarrow> state \<Rightarrow> state" where
  "sway_leaf rotation_matrix i s =
     (let pos_y = leaf_positions ! (i div 2);
          side = (if i mod 2 = 0 then -50 else 50);
          rotated = matvec rotation_matrix (side, pos_y)
      in s\<lparr>leaves := (leaves s)[i := (leaves s ! i)
              \<lparr>l_center := (fst rotated, snd rotated), l_width := leaf_size,
               l_height := leaf_size * 0.7, l_alpha := 1\<rparr>]\<rparr>)"

text \<open>Phase 3, lines 217--244.\<close>

definition sway_phase :: "path_check \<Rightarrow> matrix \<Rightarrow> state \<Rightarrow> state outcome" where
  "sway_phase valid rotation_matrix s =
     (let s1 = s\<lparr>label_text := ''Flower Swaying...'', label_alpha := 0.7\<rparr>
      in case sway_petals valid rotation_matrix [0..<length (petals s1)] s1 of
           Raised e s' \<Rightarrow> Raised e s'
         | Done s2 \<Rightarrow>
             (let s3 = fold (sway_leaf rotation_matrix) [0..<length (leaves s2)] s2;
                  title_sway = sin (sway_angle s3 * 2) * 5
              in Done (s3\<lparr>title_position := (title_sway * 0.01, 1.1)\<rparr>)))"

text \<open>Lines 246--248: the centre disk's opacity is stored again last.\<close>

definition draw_center :: "state \<Rightarrow> state" where
  "draw_center s = s\<lparr>center_alpha := (if animation_phase s > 0 then 1 else 0)\<rparr>"

definition animate :: "path_check \<Rightarrow> int \<Rightarrow> state \<Rightarrow> state outcome" where
  "animate valid frame s =
     (let s1 = s\<lparr>frame_count := frame\<rparr>;
          s2 = s1\<lparr>sway_angle := sway_angle s1 + sway_speed\<rparr>;
          rotation_matrix = get_rotation_matrix (sway_angle s2);
          r = (if animation_phase s2 = 0 then Done (center_phase frame s2)
               else if animation_phase s2 = 1 then petals_phase valid frame s2
               else if animation_phase s2 = 2 then Done (stem_phase frame s2)
               else if animation_phase s2 = 3 then sway_phase valid rotation_matrix s2
               else Done s2)
      in case r of
           Raised e s' \<Rightarrow> Raised e s'
         | Done s' \<Rightarrow> Done (draw_center s'))"

subsection \<open>Runs of the driver\<close>

text \<open>The state one invocation leaves behind, whether it returned or raised.\<close>

definition step :: "path_check \<Rightarrow> int \<Rightarrow> state \<Rightarrow> state" where
  "step valid frame s = final (animate valid frame s)"

text \<open>The state after the host has invoked the driver once per frame of \<open>fs\<close>, in
  that order.\<close>

definition run :: "path_check \<Rightarrow> int list \<Rightarrow> state \<Rightarrow> state" where
  "run valid fs s = foldl (\<lambda>s f. step valid f s) s fs"

text \<open>The frames \<open>0, 1, ..., n - 1\<close>, as the host delivers them.\<close>

definition frames_upto :: "nat \<Rightarrow> int list" where
  "frames_upto n = map int [0..<n]"


subsection \<open>Notions used to state the properties\<close>

text \<open>Euclidean distance between two points of the canvas.\<close>

definition distance :: "point \<Rightarrow> point \<Rightarrow> real" where
  "distance a b = sqrt ((fst b - fst a)\<^sup>2 + (snd b - snd a)\<^sup>2)"

text \<open>A path check that accepts every petal outline the code builds.\<close>

definition accepts_outlines :: "path_check \<Rightarrow> bool" where
  "accepts_outlines valid = (\<forall>verts. length verts = 6 \<longrightarrow> valid verts petal_codes)"

text \<open>The number of petals whose bloom has started: the test of line 159.\<close>

definition num_started :: "state \<Rightarrow> nat" where
  "num_started s = length (filter (\<lambda>b. b > 0) (petal_bloom_starts s))"

text \<open>The timing globals of a state, and the driver restricted to them when no outline
  is rejected (\<open>nl\<close> is the number of leaves): used to follow long runs.\<close>

type_synonym timing = "nat \<times> nat \<times> int list \<times> int list"

definition timing :: "state \<Rightarrow> timing" where
  "timing s =
     (animation_phase s, current_petal_index s, petal_bloom_starts s, leaf_unfurl_starts s)"

definition leaf_tick :: "int \<Rightarrow> nat \<Rightarrow> int list \<Rightarrow> int list" where
  "leaf_tick frame i ls =
     (if ls ! i = 0 \<and> frame mod unfurl_duration = (if i mod 2 = 0 then 0 else unfurl_stagger)
      then ls[i := frame] else ls)"

fun tick :: "nat \<Rightarrow> int \<Rightarrow> timing \<Rightarrow> timing" where
  "tick nl frame (ph, idx, ps, ls) =
     (if ph = 0 then
        (if frame \<ge> center_fade_duration + phase_delay then (1, 0, ps, ls) else (0, idx, ps, ls))
      else if ph = 1 then
        (let idx1 = (if frame mod bloom_stagger = 0 \<and> idx < num_petals then idx + 1 else idx);
             ps1 = (if frame mod bloom_stagger = 0 \<and> idx < num_petals then ps[idx := frame] else ps)
         in (if idx1 \<ge> num_petals \<and> frame - last ps1 \<ge> bloom_duration then 2 else 1,
             idx1, ps1, ls))
      else if ph = 2 then
        (let ls1 = fold (leaf_tick frame) [0..<nl] ls
         in (if list_all (\<lambda>i. ls1 ! i > 0 \<and> frame - ls1 ! i \<ge> unfurl_duration) [0..<nl]
             then 3 else 2,
             idx, ps, ls1))
      else (ph, idx, ps, ls))"

text \<open>The sway angle and the numbers of petals and leaves of a state.\<close>

definition aux :: "state \<Rightarrow> real \<times> nat \<times> nat" where
  "aux s = (sway_angle s, length (petals s), length (leaves s))"

text \<open>The twelve zero-size petals the set-up builds when every outline is accepted.\<close>

definition zero_petals :: "petal list" where
  "zero_petals =
     map (\<lambda>i. \<lparr>p_path = \<lparr>vertices = petal_verts 0 0 (real i * (360 / real num_petals)) 0 0 0,
                           codes = petal_codes\<rparr>, p_alpha = 0\<rparr>) [0..<num_petals]"

text \<open>The stem line of a state, and its frame counter next to its phase.\<close>

definition stem3 :: "state \<Rightarrow> real list \<times> real list \<times> real" where
  "stem3 s = (stem_xdata s, stem_ydata s, stem_alpha s)"

definition counter_ok :: "int \<Rightarrow> state \<Rightarrow> state \<Rightarrow> bool" where
  "counter_ok f s s' =
     (frame_count s' = (if animation_phase s' = animation_phase s then f else 0))"

text \<open>The phase after the first \<open>k\<close> invocations of a run, and the invocations at
  which the phase moves from \<open>p\<close> to \<open>p + 1\<close>.\<close>

definition phase_at :: "path_check \<Rightarrow> int list \<Rightarrow> state \<Rightarrow> nat \<Rightarrow> nat" where
  "phase_at valid fs s k = animation_phase (run valid (take k fs) s)"

definition transition_at :: "path_check \<Rightarrow> int list \<Rightarrow> state \<Rightarrow> nat \<Rightarrow> nat \<Rightarrow> bool" where
  "transition_at valid fs s p k =
     (k < length fs \<and> phase_at valid fs s k = p \<and> phase_at valid fs s (Suc k) = Suc p)"

text \<open>The start tables of the timing globals, and the invariant that only entries
  below the petal index have been written: in phase 0 no petal entry is set, in
  phase 1 none from the petal index on.\<close>

definition petal_starts_of :: "timing \<Rightarrow> int list" where
  "petal_starts_of t = fst (snd (snd t))"

definition leaf_starts_of :: "timing \<Rightarrow> int list" where
  "leaf_starts_of t = snd (snd (snd t))"

definition starts_inv :: "timing \<Rightarrow> bool" where
  "starts_inv t =
     (case t of (ph, idx, ps, ls) \<Rightarrow>
        (ph = 0 \<longrightarrow> (\<forall>i<length ps. ps ! i = 0)) \<and>
        (ph = 1 \<longrightarrow> (\<forall>i<length ps. idx \<le> i \<longrightarrow> ps ! i = 0)))"

text \<open>What lines 159--171 make of one petal, given its start entry.\<close>

definition bloomed :: "int \<Rightarrow> nat \<Rightarrow> int \<Rightarrow> petal \<Rightarrow> petal" where
  "bloomed frame i start pt =
     (if start > 0 then
        (let progress = bloom_progress frame start
         in if progress > 0 then
              pt\<lparr>p_path := \<lparr>vertices = petal_verts 0 0 (real i * (360 / real num_petals))
                                       (petal_length * progress) (petal_width * progress)
                                       (progress * 15),
                           codes = petal_codes\<rparr>,
                 p_alpha := progress\<rparr>
            else pt\<lparr>p_alpha := 0\<rparr>)
      else pt)"

text \<open>A bound on the petal index along the run over the frames 0, 1, 2, ...: after
  \<open>n\<close> frames at most \<open>(n - 1) div 20 - 3\<close> petals have been launched, and only
  entries below the petal index are set.\<close>

definition launch_inv :: "nat \<Rightarrow> timing \<Rightarrow> bool" where
  "launch_inv n t =
     (case t of (ph, idx, ps, ls) \<Rightarrow>
        (\<forall>i<length ps. idx \<le> i \<longrightarrow> ps ! i = 0) \<and>
        (n \<le> 60 \<longrightarrow> ph = 0) \<and> (ph = 0 \<longrightarrow> idx = 0) \<and>
        idx \<le> (n - 1) div 20 - 3)"

text \<open>What lines 201--208 make of one leaf, given its start entry, and the loop of
  lines 195--208 on the pair of the start table and the leaf list.\<close>

definition unfurled :: "int \<Rightarrow> int \<Rightarrow> leaf \<Rightarrow> leaf" where
  "unfurled frame start lf =
     (let progress = min (real_of_int (frame - start) / real_of_int unfurl_duration) 1;
          size = leaf_size * progress
      in lf\<lparr>l_width := size, l_height := size * 0.7, l_alpha := progress\<rparr>)"

definition leaf_pair :: "int \<Rightarrow> nat \<Rightarrow> int list \<times> leaf list \<Rightarrow> int list \<times> leaf list" where
  "leaf_pair frame i x =
     (leaf_tick frame i (fst x),
      if 0 < leaf_tick frame i (fst x) ! i
      then (snd x)[i := unfurled frame (leaf_tick frame i (fst x) ! i) (snd x ! i)]
      else snd x)"

section \<open>Properties\<close>

subsection \<open>The petal outline\<close>

lemma petal_verts_length: "length (petal_verts cx cy a l w r) = 6"
  by (simp add: petal_verts_def py_insert_def Let_def)

lemma create_petal_path_mpl:
  "create_petal_path mpl_valid cx cy a l w r = Inl ValueError"
  by (simp add: create_petal_path_def Path_init_def mpl_valid_def petal_codes_def
      petal_verts_def py_insert_def Let_def)

lemma petal_verts_explicit:
  "petal_verts cx cy a l w r =
     (let t = radians (a + r) in
      [(cx + l * sin t, cy - l * cos t),
       (cx + 1.2 * l * cos t, cy + 1.2 * l * sin t),
       (cx + 0.5 * l * cos t - w / 2 * sin t, cy + 0.5 * l * sin t + w / 2 * cos t),
       (cx + 0.5 * l * cos t + w / 2 * sin t, cy + 0.5 * l * sin t - w / 2 * cos t),
       (cx - l * sin t, cy + l * cos t),
       (cx + 0.8 * l * sin t, cy - 0.8 * l * cos t)])"
  by (simp add: petal_verts_def py_insert_def Let_def cos_diff sin_diff cos_add sin_add)

text \<open>
  C1 (the code departs from the claim). The claim: every call of
  \<^verbatim>\<open>create_petal_path\<close>, the zero-size calls of the set-up included, constructs a
  valid path, so nothing can fail. The code builds six vertices (four listed, two
  inserted) but only five codes; matplotlib's constructor rejects arrays of different
  lengths, so every call raises \<^verbatim>\<open>ValueError\<close>, and the set-up stops at its first
  petal.
\<close>

theorem create_petal_path_raises:
  "length (petal_verts cx cy a l w r) = 6 \<and> length petal_codes = 5 \<and>
   create_petal_path mpl_valid cx cy a l w r = Inl ValueError \<and>
   module_setup mpl_valid = Inl ValueError"
  by (simp add: petal_verts_length petal_codes_def create_petal_path_mpl module_setup_def
      upt_conv_Cons)

text \<open>
  C9 (amended). The claim lists five points in the order base-left, bulge, bulge,
  tip, base-right. The builder computes six vertices, in the order base-left, tip
  (1.2 times the length along the axis), left bulge, right bulge (at mid-length,
  half the width to either side of the axis), base-right, and a closing point at 0.8
  times the length in the base-left direction; the code list ends with
  \<^verbatim>\<open>CLOSEPOLY\<close>. With length and width 0 all six vertices are the centre.
\<close>

theorem petal_outline_order:
  "petal_verts cx cy a l w r =
     (let t = radians (a + r) in
      [(cx + l * sin t, cy - l * cos t),
       (cx + 1.2 * l * cos t, cy + 1.2 * l * sin t),
       (cx + 0.5 * l * cos t - w / 2 * sin t, cy + 0.5 * l * sin t + w / 2 * cos t),
       (cx + 0.5 * l * cos t + w / 2 * sin t, cy + 0.5 * l * sin t - w / 2 * cos t),
       (cx - l * sin t, cy + l * cos t),
       (cx + 0.8 * l * sin t, cy - 0.8 * l * cos t)]) \<and>
   petal_verts cx cy a 0 0 r = replicate 6 (cx, cy) \<and>
   last petal_codes = CLOSEPOLY"
  by (simp add: petal_verts_explicit petal_codes_def Let_def numeral_eq_Suc)

text \<open>The outline at centre (0, 0), angle 0, length 10, width 4: the tip (12, 0) is
  the second of six vertices, before the bulge points, not the fourth of five.\<close>

theorem petal_outline_order_counterexample:
  "petal_verts 0 0 0 10 4 0 = [(0, -10), (12, 0), (5, 2), (5, -2), (0, 10), (0, -8)] \<and>
   petal_verts 0 0 0 10 4 0 \<noteq> [(0, -10), (5, 2), (5, -2), (12, 0), (0, 10)]"
  by (simp add: petal_verts_explicit radians_def)

subsection \<open>What the loops and the phases leave unchanged\<close>

lemma bloom_petal_final:
  "\<exists>ps. final (bloom_petal valid f i s) = s\<lparr>petals := ps\<rparr> \<and> length ps = length (petals s)"
  by (auto simp: bloom_petal_def Let_def split: sum.splits intro: exI[of _ "petals s"])

lemma bloom_loop_final:
  "\<exists>ps. final (bloom_loop valid f is s) = s\<lparr>petals := ps\<rparr> \<and> length ps = length (petals s)"
proof (induction "is" arbitrary: s)
  case Nil
  show ?case by (auto intro: exI[of _ "petals s"])
next
  case (Cons i "is")
  obtain ps where ps: "final (bloom_petal valid f i s) = s\<lparr>petals := ps\<rparr>" "length ps = length (petals s)"
    using bloom_petal_final by blast
  show ?case
  proof (cases "bloom_petal valid f i s")
    case (Raised e s')
    with ps show ?thesis by auto
  next
    case (Done s')
    with ps have s': "s' = s\<lparr>petals := ps\<rparr>" by simp
    from Cons.IH[of s'] obtain qs where
      "final (bloom_loop valid f is s') = s'\<lparr>petals := qs\<rparr>" "length qs = length (petals s')" by blast
    with Done s' ps show ?thesis by auto
  qed
qed

lemma sway_petal_final:
  "\<exists>ps. final (sway_petal valid m i s) = s\<lparr>petals := ps\<rparr> \<and> length ps = length (petals s)"
  by (auto simp: sway_petal_def Let_def split: sum.splits intro: exI[of _ "petals s"])

lemma sway_petals_final:
  "\<exists>ps. final (sway_petals valid m is s) = s\<lparr>petals := ps\<rparr> \<and> length ps = length (petals s)"
proof (induction "is" arbitrary: s)
  case Nil
  show ?case by (auto intro: exI[of _ "petals s"])
next
  case (Cons i "is")
  obtain ps where ps: "final (sway_petal valid m i s) = s\<lparr>petals := ps\<rparr>" "length ps = length (petals s)"
    using sway_petal_final by blast
  show ?case
  proof (cases "sway_petal valid m i s")
    case (Raised e s')
    with ps show ?thesis by auto
  next
    case (Done s')
    with ps have s': "s' = s\<lparr>petals := ps\<rparr>" by simp
    from Cons.IH[of s'] obtain qs where
      "final (sway_petals valid m is s') = s'\<lparr>petals := qs\<rparr>" "length qs = length (petals s')" by blast
    with Done s' ps show ?thesis by auto
  qed
qed

lemma unfurl_leaf_shape:
  "\<exists>lv. unfurl_leaf f i s =
      s\<lparr>leaf_unfurl_starts := leaf_tick f i (leaf_unfurl_starts s), leaves := lv\<rparr>
    \<and> length lv = length (leaves s)"
proof -
  let ?ls = "leaf_tick f i (leaf_unfurl_starts s)"
  let ?s1 = "s\<lparr>leaf_unfurl_starts := ?ls\<rparr>"
  have s1: "(if leaf_unfurl_starts s ! i = 0 \<and> f mod unfurl_duration = (if i mod 2 = 0 then 0 else unfurl_stagger)
                then s\<lparr>leaf_unfurl_starts := (leaf_unfurl_starts s)[i := f]\<rparr>
                else s) = ?s1"
    by (simp add: leaf_tick_def)
  show ?thesis
  proof (cases "?ls ! i > 0")
    case True
    let ?lv = "(leaves s)[i := (leaves s ! i)
                     \<lparr>l_width := leaf_size * min (real_of_int (f - ?ls ! i) / real_of_int unfurl_duration) 1,
                      l_height := leaf_size * min (real_of_int (f - ?ls ! i) / real_of_int unfurl_duration) 1 * 0.7,
                      l_alpha := min (real_of_int (f - ?ls ! i) / real_of_int unfurl_duration) 1\<rparr>]"
    have "unfurl_leaf f i s = ?s1\<lparr>leaves := ?lv\<rparr>"
      unfolding unfurl_leaf_def Let_def s1 using True by simp
    then have "unfurl_leaf f i s = s\<lparr>leaf_unfurl_starts := ?ls, leaves := ?lv\<rparr> \<and> length ?lv = length (leaves s)"
      by simp
    then show ?thesis by blast
  next
    case False
    have "unfurl_leaf f i s = ?s1"
      unfolding unfurl_leaf_def Let_def s1 using False by simp
    then have "unfurl_leaf f i s = s\<lparr>leaf_unfurl_starts := ?ls, leaves := leaves s\<rparr> \<and> length (leaves s) = length (leaves s)"
      by simp
    then show ?thesis by blast
  qed
qed

lemma fold_unfurl_shape:
  "\<exists>lv. fold (unfurl_leaf f) is s =
      s\<lparr>leaf_unfurl_starts := fold (leaf_tick f) is (leaf_unfurl_starts s), leaves := lv\<rparr>
    \<and> length lv = length (leaves s)"
proof (induction "is" arbitrary: s)
  case Nil
  show ?case by (auto intro: exI[of _ "leaves s"])
next
  case (Cons i "is")
  obtain lv where lv: "unfurl_leaf f i s =
      s\<lparr>leaf_unfurl_starts := leaf_tick f i (leaf_unfurl_starts s), leaves := lv\<rparr>"
      "length lv = length (leaves s)"
    using unfurl_leaf_shape by blast
  from Cons.IH[of "unfurl_leaf f i s"] obtain lw where
    lw: "fold (unfurl_leaf f) is (unfurl_leaf f i s) =
      (unfurl_leaf f i s)\<lparr>leaf_unfurl_starts :=
          fold (leaf_tick f) is (leaf_unfurl_starts (unfurl_leaf f i s)), leaves := lw\<rparr>"
      "length lw = length (leaves (unfurl_leaf f i s))"
    by blast
  show ?case
    apply (rule exI[of _ lw])
    using lw lv by simp
qed

lemma sway_leaf_shape:
  "\<exists>lv. sway_leaf m i s = s\<lparr>leaves := lv\<rparr> \<and> length lv = length (leaves s)"
  by (auto simp: sway_leaf_def Let_def)

lemma fold_sway_leaf_shape:
  "\<exists>lv. fold (sway_leaf m) is s = s\<lparr>leaves := lv\<rparr> \<and> length lv = length (leaves s)"
proof (induction "is" arbitrary: s)
  case Nil
  show ?case by (auto intro: exI[of _ "leaves s"])
next
  case (Cons i "is")
  obtain lv where lv: "sway_leaf m i s = s\<lparr>leaves := lv\<rparr>" "length lv = length (leaves s)"
    using sway_leaf_shape by blast
  from Cons.IH[of "sway_leaf m i s"] obtain lw where
    lw: "fold (sway_leaf m) is (sway_leaf m i s) = (sway_leaf m i s)\<lparr>leaves := lw\<rparr>"
      "length lw = length (leaves (sway_leaf m i s))"
    by blast
  show ?case
    apply (rule exI[of _ lw])
    using lw lv by simp
qed

text \<open>Phase by phase.\<close>

lemma center_phase_timing:
  "animation_phase s = 0 \<Longrightarrow> timing (center_phase f s) = tick nl f (timing s)"
  by (simp add: center_phase_def timing_def Let_def)

lemma petals_phase_timing:
  assumes "animation_phase s = 1"
  shows "timing (final (petals_phase valid f s)) =
           (if raised (petals_phase valid f s) then timing s else tick nl f (timing s))"
proof -
  let ?s1 = "s\<lparr>label_text := ''Petals Blooming...'', label_alpha := label_fade f\<rparr>"
  let ?r = "bloom_loop valid f [0..<length (petals ?s1)] ?s1"
  obtain ps where ps: "final ?r = ?s1\<lparr>petals := ps\<rparr>"
    using bloom_loop_final by blast
  show ?thesis
  proof (cases ?r)
    case (Raised e s')
    with ps show ?thesis by (simp add: petals_phase_def timing_def)
  next
    case (Done s')
    with ps have "s' = ?s1\<lparr>petals := ps\<rparr>" by simp
    with Done assms show ?thesis
      by (simp add: petals_phase_def timing_def trigger_petal_def petals_done_def Let_def)
  qed
qed

lemma stem_phase_timing:
  assumes "animation_phase s = 2"
  shows "timing (stem_phase f s) = tick (length (leaves s)) f (timing s)"
proof -
  let ?s1 = "s\<lparr>label_text := ''Leaves Unfurling...'', label_alpha := label_fade f\<rparr>"
  let ?s2 = "(if f = 0 then ?s1\<lparr>stem_xdata := [0, 0], stem_ydata := [center_radius, stem_height],
                        stem_alpha := 1\<rparr> else ?s1)"
  obtain lv where lv: "fold (unfurl_leaf f) [0..<length (leaves ?s2)] ?s2 =
      ?s2\<lparr>leaf_unfurl_starts := fold (leaf_tick f) [0..<length (leaves ?s2)] (leaf_unfurl_starts ?s2),
           leaves := lv\<rparr>" "length lv = length (leaves ?s2)"
    using fold_unfurl_shape by blast
  have "stem_phase f s = leaves_done f (fold (unfurl_leaf f) [0..<length (leaves ?s2)] ?s2)"
    by (simp add: stem_phase_def Let_def)
  with lv assms show ?thesis
    by (simp add: timing_def leaves_done_def Let_def)
qed

lemma sway_phase_timing:
  "timing (final (sway_phase valid m s)) = timing s"
proof -
  let ?s1 = "s\<lparr>label_text := ''Flower Swaying...'', label_alpha := 0.7\<rparr>"
  let ?r = "sway_petals valid m [0..<length (petals ?s1)] ?s1"
  obtain ps where ps: "final ?r = ?s1\<lparr>petals := ps\<rparr>"
    using sway_petals_final by blast
  show ?thesis
  proof (cases ?r)
    case (Raised e s')
    with ps show ?thesis by (simp add: sway_phase_def timing_def)
  next
    case (Done s')
    with ps have s': "s' = ?s1\<lparr>petals := ps\<rparr>" by simp
    obtain lv where "fold (sway_leaf m) [0..<length (leaves s')] s' = s'\<lparr>leaves := lv\<rparr>"
      using fold_sway_leaf_shape by blast
    with Done s' show ?thesis
      by (simp add: sway_phase_def timing_def Let_def)
  qed
qed

lemma animate_timing:
  "timing (final (animate valid f s)) =
     (if raised (animate valid f s) then timing s else tick (length (leaves s)) f (timing s))"
proof -
  let ?s2 = "s\<lparr>frame_count := f, sway_angle := sway_angle s + sway_speed\<rparr>"
  have t2: "timing ?s2 = timing s" by (simp add: timing_def)
  have dc: "\<And>u. timing (draw_center u) = timing u" by (simp add: timing_def draw_center_def)
  consider (p0) "animation_phase s = 0" | (p1) "animation_phase s = 1" | (p2) "animation_phase s = 2"
    | (p3) "animation_phase s = 3" | (p4) "animation_phase s > 3" by linarith
  then show ?thesis
  proof cases
    case p0
    then have "animate valid f s = Done (draw_center (center_phase f ?s2))"
      by (simp add: animate_def Let_def)
    then show ?thesis using center_phase_timing[of ?s2 f "length (leaves s)"] p0 t2 dc by simp
  next
    case p1
    then have a: "animate valid f s =
        (case petals_phase valid f ?s2 of Raised e s' \<Rightarrow> Raised e s' | Done s' \<Rightarrow> Done (draw_center s'))"
      by (simp add: animate_def Let_def)
    show ?thesis
      using petals_phase_timing[of ?s2 valid f "length (leaves s)"] p1 t2 dc
      by (cases "petals_phase valid f ?s2") (simp_all add: a)
  next
    case p2
    then have "animate valid f s = Done (draw_center (stem_phase f ?s2))"
      by (simp add: animate_def Let_def)
    then show ?thesis using stem_phase_timing[of ?s2 f] p2 t2 dc by simp
  next
    case p3
    then have a: "animate valid f s =
        (case sway_phase valid (get_rotation_matrix (sway_angle ?s2)) ?s2 of
           Raised e s' \<Rightarrow> Raised e s' | Done s' \<Rightarrow> Done (draw_center s'))"
      by (simp add: animate_def Let_def)
    have "tick (length (leaves s)) f (timing s) = timing s"
      using p3 by (simp add: timing_def)
    then show ?thesis
      using sway_phase_timing[of valid "get_rotation_matrix (sway_angle ?s2)" ?s2] t2 dc
      by (cases "sway_phase valid (get_rotation_matrix (sway_angle ?s2)) ?s2") (simp_all add: a)
  next
    case p4
    then have "animate valid f s = Done (draw_center ?s2)"
      by (simp add: animate_def Let_def)
    moreover have "tick (length (leaves s)) f (timing s) = timing s"
      using p4 by (simp add: timing_def)
    ultimately show ?thesis using t2 dc by simp
  qed
qed


lemma petals_phase_aux: "aux (final (petals_phase valid f s)) = aux s"
proof -
  let ?s1 = "s\<lparr>label_text := ''Petals Blooming...'', label_alpha := label_fade f\<rparr>"
  let ?r = "bloom_loop valid f [0..<length (petals ?s1)] ?s1"
  obtain ps where ps: "final ?r = ?s1\<lparr>petals := ps\<rparr>" "length ps = length (petals ?s1)"
    using bloom_loop_final by blast
  show ?thesis
  proof (cases ?r)
    case (Raised e s')
    with ps show ?thesis by (simp add: petals_phase_def aux_def)
  next
    case (Done s')
    with ps have "s' = ?s1\<lparr>petals := ps\<rparr>" by simp
    with Done ps(2) show ?thesis
      by (simp add: petals_phase_def aux_def trigger_petal_def petals_done_def Let_def)
  qed
qed

lemma stem_phase_aux: "aux (stem_phase f s) = aux s"
proof -
  let ?s1 = "s\<lparr>label_text := ''Leaves Unfurling...'', label_alpha := label_fade f\<rparr>"
  let ?s2 = "(if f = 0 then ?s1\<lparr>stem_xdata := [0, 0], stem_ydata := [center_radius, stem_height],
                        stem_alpha := 1\<rparr> else ?s1)"
  obtain lv where lv: "fold (unfurl_leaf f) [0..<length (leaves ?s2)] ?s2 =
      ?s2\<lparr>leaf_unfurl_starts := fold (leaf_tick f) [0..<length (leaves ?s2)] (leaf_unfurl_starts ?s2),
           leaves := lv\<rparr>" "length lv = length (leaves ?s2)"
    using fold_unfurl_shape by blast
  have "stem_phase f s = leaves_done f (fold (unfurl_leaf f) [0..<length (leaves ?s2)] ?s2)"
    by (simp add: stem_phase_def Let_def)
  with lv show ?thesis
    by (simp add: aux_def leaves_done_def Let_def)
qed

lemma sway_phase_aux: "aux (final (sway_phase valid m s)) = aux s"
proof -
  let ?s1 = "s\<lparr>label_text := ''Flower Swaying...'', label_alpha := 0.7\<rparr>"
  let ?r = "sway_petals valid m [0..<length (petals ?s1)] ?s1"
  obtain ps where ps: "final ?r = ?s1\<lparr>petals := ps\<rparr>" "length ps = length (petals ?s1)"
    using sway_petals_final by blast
  show ?thesis
  proof (cases ?r)
    case (Raised e s')
    with ps show ?thesis by (simp add: sway_phase_def aux_def)
  next
    case (Done s')
    with ps have s': "s' = ?s1\<lparr>petals := ps\<rparr>" by simp
    obtain lv where "fold (sway_leaf m) [0..<length (leaves s')] s' = s'\<lparr>leaves := lv\<rparr>"
        "length lv = length (leaves s')"
      using fold_sway_leaf_shape by blast
    with Done s' ps(2) show ?thesis
      by (simp add: sway_phase_def aux_def Let_def)
  qed
qed

lemma animate_aux:
  "aux (final (animate valid f s)) = (sway_angle s + sway_speed, length (petals s), length (leaves s))"
proof -
  let ?s2 = "s\<lparr>frame_count := f, sway_angle := sway_angle s + sway_speed\<rparr>"
  have t2: "aux ?s2 = (sway_angle s + sway_speed, length (petals s), length (leaves s))"
    by (simp add: aux_def)
  have dc: "\<And>u. aux (draw_center u) = aux u" by (simp add: aux_def draw_center_def)
  consider (p0) "animation_phase s = 0" | (p1) "animation_phase s = 1" | (p2) "animation_phase s = 2"
    | (p3) "animation_phase s = 3" | (p4) "animation_phase s > 3" by linarith
  then show ?thesis
  proof cases
    case p0
    then have "animate valid f s = Done (draw_center (center_phase f ?s2))"
      by (simp add: animate_def Let_def)
    moreover have "aux (center_phase f ?s2) = aux ?s2"
      by (simp add: center_phase_def aux_def Let_def)
    ultimately show ?thesis using t2 dc by simp
  next
    case p1
    then have a: "animate valid f s =
        (case petals_phase valid f ?s2 of Raised e s' \<Rightarrow> Raised e s' | Done s' \<Rightarrow> Done (draw_center s'))"
      by (simp add: animate_def Let_def)
    show ?thesis
      using petals_phase_aux[of valid f ?s2] t2 dc
      by (cases "petals_phase valid f ?s2") (simp_all add: a)
  next
    case p2
    then have "animate valid f s = Done (draw_center (stem_phase f ?s2))"
      by (simp add: animate_def Let_def)
    then show ?thesis using stem_phase_aux[of f ?s2] t2 dc by simp
  next
    case p3
    then have a: "animate valid f s =
        (case sway_phase valid (get_rotation_matrix (sway_angle ?s2)) ?s2 of
           Raised e s' \<Rightarrow> Raised e s' | Done s' \<Rightarrow> Done (draw_center s'))"
      by (simp add: animate_def Let_def)
    show ?thesis
      using sway_phase_aux[of valid "get_rotation_matrix (sway_angle ?s2)" ?s2] t2 dc
      by (cases "sway_phase valid (get_rotation_matrix (sway_angle ?s2)) ?s2") (simp_all add: a)
  next
    case p4
    then have "animate valid f s = Done (draw_center ?s2)"
      by (simp add: animate_def Let_def)
    then show ?thesis using t2 dc by simp
  qed
qed

lemma step_sway_angle: "sway_angle (step valid f s) = sway_angle s + sway_speed"
  using animate_aux[of valid f s] by (simp add: aux_def step_def)

lemma step_lengths:
  "length (petals (step valid f s)) = length (petals s)"
  "length (leaves (step valid f s)) = length (leaves s)"
  using animate_aux[of valid f s] by (simp_all add: aux_def step_def)

lemma run_snoc: "run valid (fs @ [f]) s = step valid f (run valid fs s)"
  by (simp add: run_def)

lemma run_append: "run valid (fs @ gs) s = run valid gs (run valid fs s)"
  by (simp add: run_def)

lemma run_Nil: "run valid [] s = s"
  by (simp add: run_def)

lemma run_Cons: "run valid (f # fs) s = run valid fs (step valid f s)"
  by (simp add: run_def)

lemma run_sway_angle: "sway_angle (run valid fs s) = sway_angle s + real (length fs) * sway_speed"
  by (induction fs rule: rev_induct) (simp_all add: run_Nil run_snoc step_sway_angle algebra_simps)

lemma run_lengths:
  "length (petals (run valid fs s)) = length (petals s)"
  "length (leaves (run valid fs s)) = length (leaves s)"
  by (induction fs rule: rev_induct) (simp_all add: run_Nil run_snoc step_lengths)

lemma create_accepts:
  "accepts_outlines valid \<Longrightarrow>
   create_petal_path valid cx cy a l w r = Inr \<lparr>vertices = petal_verts cx cy a l w r, codes = petal_codes\<rparr>"
  by (simp add: accepts_outlines_def create_petal_path_def Path_init_def petal_verts_length)

lemma accept_all_accepts: "accepts_outlines accept_all"
  by (simp add: accepts_outlines_def accept_all_def)

lemma setup_petals_accepts:
  "accepts_outlines valid \<Longrightarrow>
   setup_petals valid is acc =
     Inr (acc @ map (\<lambda>i. \<lparr>p_path = \<lparr>vertices = petal_verts 0 0 (real i * (360 / real num_petals)) 0 0 0,
                           codes = petal_codes\<rparr>, p_alpha = 0\<rparr>) is)"
  by (induction "is" arbitrary: acc) (simp_all add: create_accepts)

lemma setup_accepts: "accepts_outlines valid \<Longrightarrow> module_setup valid = Inr (init_state zero_petals)"
  by (simp add: module_setup_def setup_petals_accepts zero_petals_def)

lemma bloom_petal_not_raised: "accepts_outlines valid \<Longrightarrow> \<not> raised (bloom_petal valid f i s)"
  by (simp add: bloom_petal_def Let_def create_accepts)

lemma bloom_loop_not_raised: "accepts_outlines valid \<Longrightarrow> \<not> raised (bloom_loop valid f is s)"
proof (induction "is" arbitrary: s)
  case Nil
  show ?case by simp
next
  case (Cons i "is")
  then show ?case
    using bloom_petal_not_raised[of valid f i s]
    by (cases "bloom_petal valid f i s") simp_all
qed

lemma sway_petal_not_raised: "accepts_outlines valid \<Longrightarrow> \<not> raised (sway_petal valid m i s)"
  by (simp add: sway_petal_def Let_def create_accepts)

lemma sway_petals_not_raised: "accepts_outlines valid \<Longrightarrow> \<not> raised (sway_petals valid m is s)"
proof (induction "is" arbitrary: s)
  case Nil
  show ?case by simp
next
  case (Cons i "is")
  then show ?case
    using sway_petal_not_raised[of valid m i s]
    by (cases "sway_petal valid m i s") simp_all
qed

lemma animate_not_raised:
  assumes "accepts_outlines valid"
  shows "\<not> raised (animate valid f s)"
proof -
  have p: "\<And>u::state. \<not> raised (petals_phase valid f u)"
  proof -
    fix u :: state
    let ?s1 = "u\<lparr>label_text := ''Petals Blooming...'', label_alpha := label_fade f\<rparr>"
    show "\<not> raised (petals_phase valid f u)"
      using bloom_loop_not_raised[OF assms, of f "[0..<length (petals ?s1)]" ?s1]
      by (cases "bloom_loop valid f [0..<length (petals ?s1)] ?s1") (simp_all add: petals_phase_def)
  qed
  have q: "\<And>m (u::state). \<not> raised (sway_phase valid m u)"
  proof -
    fix m and u :: state
    let ?s1 = "u\<lparr>label_text := ''Flower Swaying...'', label_alpha := 0.7\<rparr>"
    show "\<not> raised (sway_phase valid m u)"
      using sway_petals_not_raised[OF assms, of m "[0..<length (petals ?s1)]" ?s1]
      by (cases "sway_petals valid m [0..<length (petals ?s1)] ?s1") (simp_all add: sway_phase_def Let_def)
  qed
  let ?s2 = "s\<lparr>frame_count := f, sway_angle := sway_angle s + sway_speed\<rparr>"
  show ?thesis
    using p[of ?s2] q[of "get_rotation_matrix (sway_angle ?s2)" ?s2]
    apply (simp add: animate_def Let_def)
    apply (cases "petals_phase valid f ?s2"; cases "sway_phase valid (get_rotation_matrix (sway_angle ?s2)) ?s2")
    apply simp_all
    done
qed

lemma step_timing:
  "accepts_outlines valid \<Longrightarrow> timing (step valid f s) = tick (length (leaves s)) f (timing s)"
  using animate_timing[of valid f s] animate_not_raised[of valid f s] by (simp add: step_def)

lemma run_timing:
  "accepts_outlines valid \<Longrightarrow>
   timing (run valid fs s) = foldl (\<lambda>t f. tick (length (leaves s)) f t) (timing s) fs"
  by (induction fs rule: rev_induct) (simp_all add: run_Nil run_snoc step_timing run_lengths)

lemma init_timing: "timing (init_state ps) = (0, 0, replicate 12 0, replicate 12 0)"
  by (simp add: timing_def init_state_def)

lemma init_leaves: "length (leaves (init_state ps)) = 6"
  by (simp add: init_state_def setup_leaves_def leaf_positions_def)

text \<open>The timing globals along the run over the frames 0, 1, 2, ...\<close>

lemma timeline_61: "foldl (\<lambda>t f. tick 6 f t) (0, 0, replicate 12 0, replicate 12 0) (frames_upto 61) = (1, 0, replicate 12 0, replicate 12 0)"
  by code_simp

lemma timeline_62: "foldl (\<lambda>t f. tick 6 f t) (0, 0, replicate 12 0, replicate 12 0) (frames_upto 62) = (1, 0, replicate 12 0, replicate 12 0)"
  by code_simp

lemma timeline_81: "foldl (\<lambda>t f. tick 6 f t) (0, 0, replicate 12 0, replicate 12 0) (frames_upto 81)
   = (1, 1, [80,0,0,0,0,0,0,0,0,0,0,0], replicate 12 0)"
  by code_simp

lemma timeline_281: "foldl (\<lambda>t f. tick 6 f t) (0, 0, replicate 12 0, replicate 12 0) (frames_upto 281)
   = (1, 11, [80, 100, 120, 140, 160, 180, 200, 220, 240, 260, 280, 0], replicate 12 0)"
  by code_simp

lemma timeline_301: "foldl (\<lambda>t f. tick 6 f t) (0, 0, replicate 12 0, replicate 12 0) (frames_upto 301)
   = (1, 12, [80, 100, 120, 140, 160, 180, 200, 220, 240, 260, 280, 300], replicate 12 0)"
  by code_simp

lemma timeline_340: "foldl (\<lambda>t f. tick 6 f t) (0, 0, replicate 12 0, replicate 12 0) (frames_upto 340)
   = (1, 12, [80, 100, 120, 140, 160, 180, 200, 220, 240, 260, 280, 300], replicate 12 0)"
  by code_simp

lemma timeline_341: "foldl (\<lambda>t f. tick 6 f t) (0, 0, replicate 12 0, replicate 12 0) (frames_upto 341)
   = (2, 12, [80, 100, 120, 140, 160, 180, 200, 220, 240, 260, 280, 300], replicate 12 0)"
  by code_simp

lemma timeline_380: "foldl (\<lambda>t f. tick 6 f t) (0, 0, replicate 12 0, replicate 12 0) (frames_upto 380)
   = (2, 12, [80, 100, 120, 140, 160, 180, 200, 220, 240, 260, 280, 300], [360,350,360,350,360,350,0,0,0,0,0,0])"
  by code_simp

lemma timeline_381: "foldl (\<lambda>t f. tick 6 f t) (0, 0, replicate 12 0, replicate 12 0) (frames_upto 381)
   = (3, 12, [80, 100, 120, 140, 160, 180, 200, 220, 240, 260, 280, 300], [360,350,360,350,360,350,0,0,0,0,0,0])"
  by code_simp

lemma petals_phase_stem: "stem3 (final (petals_phase valid f s)) = stem3 s"
proof -
  let ?s1 = "s\<lparr>label_text := ''Petals Blooming...'', label_alpha := label_fade f\<rparr>"
  let ?r = "bloom_loop valid f [0..<length (petals ?s1)] ?s1"
  obtain ps where ps: "final ?r = ?s1\<lparr>petals := ps\<rparr>"
    using bloom_loop_final by blast
  show ?thesis
  proof (cases ?r)
    case (Raised e s')
    with ps show ?thesis by (simp add: petals_phase_def stem3_def)
  next
    case (Done s')
    with ps have "s' = ?s1\<lparr>petals := ps\<rparr>" by simp
    with Done show ?thesis
      by (simp add: petals_phase_def stem3_def trigger_petal_def petals_done_def Let_def)
  qed
qed

lemma petals_phase_counter:
  assumes "animation_phase s = 1" "frame_count s = f"
  shows "counter_ok f s (final (petals_phase valid f s))"
proof -
  let ?s1 = "s\<lparr>label_text := ''Petals Blooming...'', label_alpha := label_fade f\<rparr>"
  let ?r = "bloom_loop valid f [0..<length (petals ?s1)] ?s1"
  obtain ps where ps: "final ?r = ?s1\<lparr>petals := ps\<rparr>"
    using bloom_loop_final by blast
  show ?thesis
  proof (cases ?r)
    case (Raised e s')
    with ps assms show ?thesis by (simp add: petals_phase_def counter_ok_def)
  next
    case (Done s')
    with ps have "s' = ?s1\<lparr>petals := ps\<rparr>" by simp
    with Done assms show ?thesis
      by (simp add: petals_phase_def counter_ok_def trigger_petal_def petals_done_def Let_def)
  qed
qed

lemma stem_phase_stem:
  "stem3 (stem_phase f s) = (if f = 0 then ([0, 0], [center_radius, stem_height], 1) else stem3 s)"
proof -
  let ?s1 = "s\<lparr>label_text := ''Leaves Unfurling...'', label_alpha := label_fade f\<rparr>"
  let ?s2 = "(if f = 0 then ?s1\<lparr>stem_xdata := [0, 0], stem_ydata := [center_radius, stem_height],
                        stem_alpha := 1\<rparr> else ?s1)"
  obtain lv where lv: "fold (unfurl_leaf f) [0..<length (leaves ?s2)] ?s2 =
      ?s2\<lparr>leaf_unfurl_starts := fold (leaf_tick f) [0..<length (leaves ?s2)] (leaf_unfurl_starts ?s2),
           leaves := lv\<rparr>"
    using fold_unfurl_shape by blast
  have "stem_phase f s = leaves_done f (fold (unfurl_leaf f) [0..<length (leaves ?s2)] ?s2)"
    by (simp add: stem_phase_def Let_def)
  with lv show ?thesis
    by (simp add: stem3_def leaves_done_def Let_def)
qed

lemma stem_phase_counter:
  assumes "animation_phase s = 2" "frame_count s = f"
  shows "counter_ok f s (stem_phase f s)"
proof -
  let ?s1 = "s\<lparr>label_text := ''Leaves Unfurling...'', label_alpha := label_fade f\<rparr>"
  let ?s2 = "(if f = 0 then ?s1\<lparr>stem_xdata := [0, 0], stem_ydata := [center_radius, stem_height],
                        stem_alpha := 1\<rparr> else ?s1)"
  obtain lv where lv: "fold (unfurl_leaf f) [0..<length (leaves ?s2)] ?s2 =
      ?s2\<lparr>leaf_unfurl_starts := fold (leaf_tick f) [0..<length (leaves ?s2)] (leaf_unfurl_starts ?s2),
           leaves := lv\<rparr>"
    using fold_unfurl_shape by blast
  have "stem_phase f s = leaves_done f (fold (unfurl_leaf f) [0..<length (leaves ?s2)] ?s2)"
    by (simp add: stem_phase_def Let_def)
  with lv assms show ?thesis
    by (simp add: counter_ok_def leaves_done_def Let_def)
qed

lemma sway_phase_stem:
  "stem3 (final (sway_phase valid m s)) = stem3 s \<and>
   frame_count (final (sway_phase valid m s)) = frame_count s \<and>
   animation_phase (final (sway_phase valid m s)) = animation_phase s"
proof -
  let ?s1 = "s\<lparr>label_text := ''Flower Swaying...'', label_alpha := 0.7\<rparr>"
  let ?r = "sway_petals valid m [0..<length (petals ?s1)] ?s1"
  obtain ps where ps: "final ?r = ?s1\<lparr>petals := ps\<rparr>"
    using sway_petals_final by blast
  show ?thesis
  proof (cases ?r)
    case (Raised e s')
    with ps show ?thesis by (simp add: sway_phase_def stem3_def)
  next
    case (Done s')
    with ps have s': "s' = ?s1\<lparr>petals := ps\<rparr>" by simp
    obtain lv where "fold (sway_leaf m) [0..<length (leaves s')] s' = s'\<lparr>leaves := lv\<rparr>"
      using fold_sway_leaf_shape by blast
    with Done s' show ?thesis
      by (simp add: sway_phase_def stem3_def Let_def)
  qed
qed

lemma animate_stem_counter:
  "stem3 (final (animate valid f s)) =
     (if animation_phase s = 2 \<and> f = 0 then ([0, 0], [center_radius, stem_height], 1) else stem3 s) \<and>
   counter_ok f s (final (animate valid f s))"
proof -
  let ?s2 = "s\<lparr>frame_count := f, sway_angle := sway_angle s + sway_speed\<rparr>"
  have t2: "stem3 ?s2 = stem3 s" "frame_count ?s2 = f" "animation_phase ?s2 = animation_phase s"
    by (simp_all add: stem3_def)
  have dc: "\<And>u. stem3 (draw_center u) = stem3 u" "\<And>u. frame_count (draw_center u) = frame_count u"
      "\<And>u. animation_phase (draw_center u) = animation_phase u"
    by (simp_all add: stem3_def draw_center_def)
  consider (p0) "animation_phase s = 0" | (p1) "animation_phase s = 1" | (p2) "animation_phase s = 2"
    | (p3) "animation_phase s = 3" | (p4) "animation_phase s > 3" by linarith
  then show ?thesis
  proof cases
    case p0
    then have "animate valid f s = Done (draw_center (center_phase f ?s2))"
      by (simp add: animate_def Let_def)
    then show ?thesis using p0
      by (simp add: center_phase_def stem3_def counter_ok_def draw_center_def Let_def)
  next
    case p1
    then have a: "animate valid f s =
        (case petals_phase valid f ?s2 of Raised e s' \<Rightarrow> Raised e s' | Done s' \<Rightarrow> Done (draw_center s'))"
      by (simp add: animate_def Let_def)
    show ?thesis
      using petals_phase_stem[of valid f ?s2] petals_phase_counter[of ?s2 f valid] t2 dc p1
      by (cases "petals_phase valid f ?s2") (simp_all add: a counter_ok_def)
  next
    case p2
    then have "animate valid f s = Done (draw_center (stem_phase f ?s2))"
      by (simp add: animate_def Let_def)
    then show ?thesis
      using stem_phase_stem[of f ?s2] stem_phase_counter[of ?s2 f] t2 dc p2
      by (simp add: counter_ok_def)
  next
    case p3
    then have a: "animate valid f s =
        (case sway_phase valid (get_rotation_matrix (sway_angle ?s2)) ?s2 of
           Raised e s' \<Rightarrow> Raised e s' | Done s' \<Rightarrow> Done (draw_center s'))"
      by (simp add: animate_def Let_def)
    show ?thesis
      using sway_phase_stem[of valid "get_rotation_matrix (sway_angle ?s2)" ?s2] t2 dc p3
      by (cases "sway_phase valid (get_rotation_matrix (sway_angle ?s2)) ?s2")
         (simp_all add: a counter_ok_def)
  next
    case p4
    then have "animate valid f s = Done (draw_center ?s2)"
      by (simp add: animate_def Let_def)
    then show ?thesis using t2 dc p4 by (simp add: counter_ok_def)
  qed
qed

lemma animate_center_phase:
  "animation_phase s = 0 \<Longrightarrow>
   animate valid f s =
     Done (draw_center (center_phase f (s\<lparr>frame_count := f, sway_angle := sway_angle s + sway_speed\<rparr>)))"
  by (simp add: animate_def Let_def)

lemma animate_sway_phase:
  "animation_phase s = 3 \<Longrightarrow>
   animate valid f s =
     (case sway_phase valid (get_rotation_matrix (sway_angle s + sway_speed))
             (s\<lparr>frame_count := f, sway_angle := sway_angle s + sway_speed\<rparr>) of
        Raised e s' \<Rightarrow> Raised e s'
      | Done s' \<Rightarrow> Done (draw_center s'))"
  by (simp add: animate_def Let_def)

lemma step_center_alpha:
  "animation_phase s = 0 \<Longrightarrow>
   center_alpha (step valid f s) = (if f \<ge> center_fade_duration + phase_delay then 1 else 0)"
  by (simp add: step_def animate_center_phase draw_center_def center_phase_def Let_def)

lemma step_timing_center:
  "animation_phase s = 0 \<Longrightarrow> timing (step valid f s) = tick (length (leaves s)) f (timing s)"
  using animate_timing[of valid f s] by (simp add: step_def animate_center_phase)

lemma length_frames_upto: "length (frames_upto n) = n"
  by (simp add: frames_upto_def)

lemma frames_upto_Suc: "frames_upto (Suc n) = frames_upto n @ [int n]"
  by (simp add: frames_upto_def)

lemma run_center:
  "n \<le> 60 \<Longrightarrow> timing (run valid (frames_upto n) (init_state ps)) = (0, 0, replicate 12 0, replicate 12 0)"
proof (induction n)
  case 0
  show ?case by (simp add: frames_upto_def run_Nil init_timing)
next
  case (Suc n)
  then have t: "timing (run valid (frames_upto n) (init_state ps)) = (0, 0, replicate 12 0, replicate 12 0)"
    by simp
  then have "animation_phase (run valid (frames_upto n) (init_state ps)) = 0"
    by (simp add: timing_def)
  from step_timing_center[OF this, of valid "int n"] t Suc.prems show ?case
    by (simp add: frames_upto_Suc run_snoc)
qed

lemma run_stem:
  "stem3 (run valid (frames_upto n) (init_state ps)) = ([], [], 0)"
proof (induction n)
  case 0
  show ?case by (simp add: frames_upto_def run_Nil stem3_def init_state_def)
next
  case (Suc n)
  let ?s = "run valid (frames_upto n) (init_state ps)"
  have "\<not> (animation_phase ?s = 2 \<and> int n = 0)"
  proof (cases n)
    case 0
    then show ?thesis by (simp add: frames_upto_def run_Nil init_state_def)
  next
    case (Suc m)
    then show ?thesis by simp
  qed
  then have "(if animation_phase ?s = 2 \<and> int n = 0
        then ([0, 0], [center_radius, stem_height], 1) else stem3 ?s) = stem3 ?s"
    by auto
  moreover have "stem3 (step valid (int n) ?s) =
      (if animation_phase ?s = 2 \<and> int n = 0
        then ([0, 0], [center_radius, stem_height], 1) else stem3 ?s)"
    using animate_stem_counter[of valid "int n" ?s] unfolding step_def by blast
  ultimately have "stem3 (step valid (int n) ?s) = stem3 ?s"
    by (rule back_subst[of "\<lambda>x. stem3 (step valid (int n) ?s) = x", rotated])
  with Suc.IH show ?case by (simp add: frames_upto_Suc run_snoc)
qed

lemma run_accept_timing:
  "timing (run accept_all (frames_upto n) (init_state zero_petals)) =
     foldl (\<lambda>t f. tick 6 f t) (0, 0, replicate 12 0, replicate 12 0) (frames_upto n)"
  by (simp add: run_timing[OF accept_all_accepts] init_timing init_leaves)

text \<open>
  C3 (the code departs from the claim). The claim: on the first invocation after the
  transition into the stem-and-leaves phase the stem becomes fully visible and stays
  so. The code draws the stem only when \<^verbatim>\<open>frame == 0\<close> (line 190), testing the
  absolute frame although \<^verbatim>\<open>frame_count\<close> was reset at the transition. On a run over
  the frames 0, 1, 2, ... frame 0 is delivered in phase 0, so the stem keeps its
  empty data and opacity 0 for ever, whatever the path check; when outlines are
  accepted the phase is entered by the invocation for frame 340, and the invocation
  for frame 341 leaves the stem invisible.
\<close>

theorem stem_never_drawn:
  "stem_alpha (run valid (frames_upto n) (init_state ps)) = 0 \<and>
   stem_xdata (run valid (frames_upto n) (init_state ps)) = [] \<and>
   stem_ydata (run valid (frames_upto n) (init_state ps)) = [] \<and>
   animation_phase (run accept_all (frames_upto 340) (init_state zero_petals)) = 1 \<and>
   animation_phase (run accept_all (frames_upto 341) (init_state zero_petals)) = 2 \<and>
   stem_alpha (run accept_all (frames_upto 342) (init_state zero_petals)) = 0"
proof -
  have a: "stem3 (run valid (frames_upto n) (init_state ps)) = ([], [], 0)"
    by (rule run_stem)
  have b: "stem3 (run accept_all (frames_upto 342) (init_state zero_petals)) = ([], [], 0)"
    by (rule run_stem)
  have c: "timing (run accept_all (frames_upto 340) (init_state zero_petals)) =
      (1, 12, [80, 100, 120, 140, 160, 180, 200, 220, 240, 260, 280, 300], replicate 12 0)"
    by (simp only: run_accept_timing timeline_340)
  have d: "timing (run accept_all (frames_upto 341) (init_state zero_petals)) =
      (2, 12, [80, 100, 120, 140, 160, 180, 200, 220, 240, 260, 280, 300], replicate 12 0)"
    by (simp only: run_accept_timing timeline_341)
  from a b c d show ?thesis by (simp add: stem3_def timing_def)
qed

text \<open>
  C2 (the code departs from the claim). The claim: during the centre phase the disk's
  opacity after the update for frame \<open>f\<close> is \<open>min (f / 40) 1\<close>. Line 142 stores
  that value (1/2 at frame 20), but lines 247--248 store 0 over it at the end of
  every invocation that leaves the phase at 0: after the frames 0..20 the phase is
  still 0 and the disk's opacity is 0.
\<close>

theorem center_fade_overridden:
  "animation_phase (run valid (frames_upto 20) (init_state ps)) = 0 \<and>
   center_alpha (center_phase 20 u) = 1 / 2 \<and>
   center_alpha (run valid (frames_upto 21) (init_state ps)) = 0"
proof -
  have t: "timing (run valid (frames_upto 20) (init_state ps)) = (0, 0, replicate 12 0, replicate 12 0)"
    by (rule run_center) simp
  then have p: "animation_phase (run valid (frames_upto 20) (init_state ps)) = 0"
    by (simp add: timing_def)
  have "frames_upto 21 = frames_upto 20 @ [20]"
    using frames_upto_Suc[of 20] by simp
  then have "center_alpha (run valid (frames_upto 21) (init_state ps)) = 0"
    using step_center_alpha[OF p, of valid 20] by (simp add: run_snoc)
  moreover have "center_alpha (center_phase 20 u) = 1 / 2"
    by (simp add: center_phase_def Let_def)
  ultimately show ?thesis using p by simp
qed

text \<open>
  C10. The sway angle grows by \<^verbatim>\<open>sway_speed\<close> on every invocation, in every phase
  and whether or not the invocation raises; after the invocations for any frames
  \<open>fs\<close> from the initial state it is \<open>length fs * sway_speed\<close>; and an invocation
  that finds the sway phase builds its rotation matrix from the angle
  \<open>(length fs + 1) * sway_speed\<close>, which is not 0.
\<close>

theorem sway_angle_accumulates:
  "sway_angle (step valid f s) = sway_angle s + sway_speed \<and>
   sway_angle (run valid fs (init_state ps)) = real (length fs) * sway_speed \<and>
   (animation_phase (run valid fs (init_state ps)) = 3 \<longrightarrow>
      real (length fs + 1) * sway_speed \<noteq> 0 \<and>
      animate valid f (run valid fs (init_state ps)) =
        (case sway_phase valid (get_rotation_matrix (real (length fs + 1) * sway_speed))
                ((run valid fs (init_state ps))
                   \<lparr>frame_count := f, sway_angle := real (length fs + 1) * sway_speed\<rparr>) of
           Raised e s' \<Rightarrow> Raised e s'
         | Done s' \<Rightarrow> Done (draw_center s')))"
proof -
  have a: "sway_angle (run valid fs (init_state ps)) = real (length fs) * sway_speed"
    by (simp add: run_sway_angle init_state_def)
  have b: "sway_angle (run valid fs (init_state ps)) + sway_speed = real (length fs + 1) * sway_speed"
    by (simp add: a algebra_simps)
  have c: "animation_phase (run valid fs (init_state ps)) = 3 \<longrightarrow>
      real (length fs + 1) * sway_speed \<noteq> 0 \<and>
      animate valid f (run valid fs (init_state ps)) =
        (case sway_phase valid (get_rotation_matrix (real (length fs + 1) * sway_speed))
                ((run valid fs (init_state ps))
                   \<lparr>frame_count := f, sway_angle := real (length fs + 1) * sway_speed\<rparr>) of
           Raised e s' \<Rightarrow> Raised e s'
         | Done s' \<Rightarrow> Done (draw_center s'))"
  proof
    assume p: "animation_phase (run valid fs (init_state ps)) = 3"
    have "real (length fs + 1) * sway_speed \<noteq> 0" by simp
    moreover note animate_sway_phase[OF p, of valid f, unfolded b]
    ultimately show "real (length fs + 1) * sway_speed \<noteq> 0 \<and>
      animate valid f (run valid fs (init_state ps)) =
        (case sway_phase valid (get_rotation_matrix (real (length fs + 1) * sway_speed))
                ((run valid fs (init_state ps))
                   \<lparr>frame_count := f, sway_angle := real (length fs + 1) * sway_speed\<rparr>) of
           Raised e s' \<Rightarrow> Raised e s'
         | Done s' \<Rightarrow> Done (draw_center s'))"
      by (rule conjI)
  qed
  from step_sway_angle[of valid f s] a c show ?thesis by (intro conjI)
qed

text \<open>With every outline accepted, the frames 0..380 lead into the sway phase; the
  invocation for frame 381 rotates by 382 * 0.03 = 11.46.\<close>

theorem sway_angle_accumulates_witness:
  "animation_phase (run accept_all (frames_upto 381) (init_state zero_petals)) = 3 \<and>
   sway_angle (run accept_all (frames_upto 381) (init_state zero_petals)) = 1143 / 100 \<and>
   animate accept_all 381 (run accept_all (frames_upto 381) (init_state zero_petals)) =
     (case sway_phase accept_all (get_rotation_matrix (1146 / 100))
             ((run accept_all (frames_upto 381) (init_state zero_petals))
                \<lparr>frame_count := 381, sway_angle := 1146 / 100\<rparr>) of
        Raised e s' \<Rightarrow> Raised e s'
      | Done s' \<Rightarrow> Done (draw_center s'))"
proof -
  have "timing (run accept_all (frames_upto 381) (init_state zero_petals)) =
      (3, 12, [80, 100, 120, 140, 160, 180, 200, 220, 240, 260, 280, 300],
       [360, 350, 360, 350, 360, 350, 0, 0, 0, 0, 0, 0])"
    by (simp only: run_accept_timing timeline_381)
  then have p: "animation_phase (run accept_all (frames_upto 381) (init_state zero_petals)) = 3"
    by (simp add: timing_def)
  show ?thesis
    using p sway_angle_accumulates[of accept_all 381 "init_state zero_petals" "frames_upto 381" zero_petals]
    by (simp add: length_frames_upto)
qed

lemma tick_phase:
  "fst (tick nl f t) = fst t \<or> fst (tick nl f t) = Suc (fst t)"
  by (cases t) (simp add: Let_def)

lemma tick_phase_sway: "3 \<le> fst t \<Longrightarrow> fst (tick nl f t) = fst t"
  by (cases t) (simp add: Let_def)

lemma fst_timing: "fst (timing s) = animation_phase s"
  by (simp add: timing_def)

lemma step_phase:
  "animation_phase (step valid f s) = animation_phase s \<or>
   animation_phase (step valid f s) = Suc (animation_phase s)"
proof (cases "raised (animate valid f s)")
  case True
  then have "timing (step valid f s) = timing s"
    using animate_timing[of valid f s] by (simp add: step_def)
  then show ?thesis by (simp add: timing_def)
next
  case False
  then have "timing (step valid f s) = tick (length (leaves s)) f (timing s)"
    using animate_timing[of valid f s] by (simp add: step_def)
  then have "animation_phase (step valid f s) = fst (tick (length (leaves s)) f (timing s))"
    by (metis fst_timing)
  then show ?thesis
    using tick_phase[of "length (leaves s)" f "timing s"] by (simp only: fst_timing)
qed

lemma step_phase_sway:
  assumes "3 \<le> animation_phase s"
  shows "animation_phase (step valid f s) = animation_phase s"
proof (cases "raised (animate valid f s)")
  case True
  then have "timing (step valid f s) = timing s"
    using animate_timing[of valid f s] by (simp add: step_def)
  then show ?thesis by (simp add: timing_def)
next
  case False
  then have "timing (step valid f s) = tick (length (leaves s)) f (timing s)"
    using animate_timing[of valid f s] by (simp add: step_def)
  then have "animation_phase (step valid f s) = fst (tick (length (leaves s)) f (timing s))"
    by (metis fst_timing)
  then show ?thesis
    using tick_phase_sway[of "timing s" "length (leaves s)" f] assms by (simp only: fst_timing)
qed

lemma phase_at_Suc:
  "phase_at valid fs s (Suc k) = phase_at valid fs s k \<or>
   phase_at valid fs s (Suc k) = Suc (phase_at valid fs s k)"
proof (cases "k < length fs")
  case True
  then have "take (Suc k) fs = take k fs @ [fs ! k]"
    by (simp add: take_Suc_conv_app_nth)
  then show ?thesis
    using step_phase[of valid "fs ! k" "run valid (take k fs) s"]
    by (simp add: phase_at_def run_snoc)
next
  case False
  then show ?thesis by (simp add: phase_at_def)
qed

lemma phase_at_Suc_sway:
  "3 \<le> phase_at valid fs s k \<Longrightarrow> phase_at valid fs s (Suc k) = phase_at valid fs s k"
proof (cases "k < length fs")
  case True
  assume a: "3 \<le> phase_at valid fs s k"
  from True have "take (Suc k) fs = take k fs @ [fs ! k]"
    by (simp add: take_Suc_conv_app_nth)
  then show ?thesis
    using step_phase_sway[of "run valid (take k fs) s" valid "fs ! k"] a
    by (simp add: phase_at_def run_snoc)
next
  case False
  then show ?thesis by (simp add: phase_at_def)
qed

lemma phase_at_mono: "j \<le> k \<Longrightarrow> phase_at valid fs s j \<le> phase_at valid fs s k"
proof (induction k)
  case 0
  then show ?case by simp
next
  case (Suc k)
  show ?case
  proof (cases "j = Suc k")
    case True
    then show ?thesis by simp
  next
    case False
    with Suc have "phase_at valid fs s j \<le> phase_at valid fs s k" by simp
    with phase_at_Suc[of valid fs s k] show ?thesis by auto
  qed
qed

lemma phase_at_sway: "j \<le> k \<Longrightarrow> phase_at valid fs s j = 3 \<Longrightarrow> phase_at valid fs s k = 3"
proof (induction k)
  case 0
  then show ?case by simp
next
  case (Suc k)
  show ?case
  proof (cases "j = Suc k")
    case True
    with Suc.prems show ?thesis by simp
  next
    case False
    with Suc have "phase_at valid fs s k = 3" by simp
    with phase_at_Suc_sway[of valid fs s k] show ?thesis by simp
  qed
qed

lemma transition_unique:
  assumes "transition_at valid fs s p k" "transition_at valid fs s p k'"
  shows "k = k'"
proof (rule ccontr)
  assume "k \<noteq> k'"
  then consider "Suc k \<le> k'" | "Suc k' \<le> k" by linarith
  then show False
  proof cases
    case 1
    from phase_at_mono[OF 1, of valid fs s] assms show False
      by (simp add: transition_at_def)
  next
    case 2
    from phase_at_mono[OF 2, of valid fs s] assms show False
      by (simp add: transition_at_def)
  qed
qed

lemma unit_steps_cross:
  fixes a :: "nat \<Rightarrow> nat"
  assumes "\<And>k. a (Suc k) = a k \<or> a (Suc k) = Suc (a k)"
  shows "a 0 \<le> p \<Longrightarrow> p < a n \<Longrightarrow> \<exists>k<n. a k = p \<and> a (Suc k) = Suc p"
proof (induction n)
  case 0
  then show ?case by simp
next
  case (Suc n)
  show ?case
  proof (cases "p < a n")
    case True
    with Suc obtain k where "k < n" "a k = p \<and> a (Suc k) = Suc p" by blast
    then show ?thesis by (auto intro: exI[of _ k])
  next
    case False
    with Suc.prems assms[of n] have "a n = p \<and> a (Suc n) = Suc p" by auto
    then show ?thesis by blast
  qed
qed

lemma transition_exists:
  assumes "phase_at valid fs s 0 \<le> p" "p < phase_at valid fs s (length fs)"
  shows "\<exists>k. transition_at valid fs s p k"
  using unit_steps_cross[of "phase_at valid fs s" p "length fs", OF phase_at_Suc assms]
  by (auto simp: transition_at_def)

lemma take_frames_upto: "k \<le> n \<Longrightarrow> take k (frames_upto n) = frames_upto k"
  by (simp add: frames_upto_def take_map)

lemma run_init_timing:
  "accepts_outlines valid \<Longrightarrow>
   timing (run valid (frames_upto n) (init_state ps)) =
     foldl (\<lambda>t f. tick 6 f t) (0, 0, replicate 12 0, replicate 12 0) (frames_upto n)"
  by (simp add: run_timing init_timing init_leaves)

lemma phase_init_60:
  "animation_phase (run valid (frames_upto 60) (init_state ps)) = 0"
  using run_center[of 60 valid ps] by (simp only: fst_timing[symmetric]) simp

lemma phase_init_61:
  assumes "accepts_outlines valid"
  shows "animation_phase (run valid (frames_upto 61) (init_state ps)) = 1"
proof -
  have "timing (run valid (frames_upto 61) (init_state ps)) =
      (1, 0, replicate 12 0, replicate 12 0)"
    by (simp only: run_init_timing[OF assms] timeline_61)
  then show ?thesis by (simp add: timing_def)
qed

lemma phase_init_340:
  assumes "accepts_outlines valid"
  shows "animation_phase (run valid (frames_upto 340) (init_state ps)) = 1"
proof -
  have "timing (run valid (frames_upto 340) (init_state ps)) =
      (1, 12, [80, 100, 120, 140, 160, 180, 200, 220, 240, 260, 280, 300], replicate 12 0)"
    by (simp only: run_init_timing[OF assms] timeline_340)
  then show ?thesis by (simp add: timing_def)
qed

lemma phase_init_341:
  assumes "accepts_outlines valid"
  shows "animation_phase (run valid (frames_upto 341) (init_state ps)) = 2"
proof -
  have "timing (run valid (frames_upto 341) (init_state ps)) =
      (2, 12, [80, 100, 120, 140, 160, 180, 200, 220, 240, 260, 280, 300], replicate 12 0)"
    by (simp only: run_init_timing[OF assms] timeline_341)
  then show ?thesis by (simp add: timing_def)
qed

lemma phase_init_380:
  assumes "accepts_outlines valid"
  shows "animation_phase (run valid (frames_upto 380) (init_state ps)) = 2"
proof -
  have "timing (run valid (frames_upto 380) (init_state ps)) =
      (2, 12, [80, 100, 120, 140, 160, 180, 200, 220, 240, 260, 280, 300],
       [360, 350, 360, 350, 360, 350, 0, 0, 0, 0, 0, 0])"
    by (simp only: run_init_timing[OF assms] timeline_380)
  then show ?thesis by (simp add: timing_def)
qed

lemma phase_init_381:
  assumes "accepts_outlines valid"
  shows "animation_phase (run valid (frames_upto 381) (init_state ps)) = 3"
proof -
  have "timing (run valid (frames_upto 381) (init_state ps)) =
      (3, 12, [80, 100, 120, 140, 160, 180, 200, 220, 240, 260, 280, 300],
       [360, 350, 360, 350, 360, 350, 0, 0, 0, 0, 0, 0])"
    by (simp only: run_init_timing[OF assms] timeline_381)
  then show ?thesis by (simp add: timing_def)
qed

lemma full_run_transitions:
  assumes "accepts_outlines valid" "381 \<le> n"
  shows "phase_at valid (frames_upto n) (init_state ps) n = 3 \<and>
         transition_at valid (frames_upto n) (init_state ps) 0 60 \<and>
         transition_at valid (frames_upto n) (init_state ps) 1 340 \<and>
         transition_at valid (frames_upto n) (init_state ps) 2 380"
proof -
  have "phase_at valid (frames_upto n) (init_state ps) 381 = 3"
    using assms by (simp add: phase_at_def take_frames_upto phase_init_381)
  from phase_at_sway[OF assms(2) this] show ?thesis
    using assms
    by (simp add: transition_at_def phase_at_def take_frames_upto length_frames_upto
        phase_init_60 phase_init_61 phase_init_340 phase_init_341 phase_init_380 phase_init_381)
qed

text \<open>
  C5. Along the invocations of any run (any frames, any path check, any starting
  state) the phase either stays or moves to the next phase, so it never decreases;
  once it is 3 (sway) it stays 3; no transition occurs twice; and a run from the
  initial state that reaches the sway phase has made each of the three transitions
  exactly once. When outlines are accepted, every run over the frames 0, ..., n - 1
  with \<open>n \<ge> 381\<close> reaches the sway phase, by the transitions made at the
  invocations for frames 60, 340 and 380.
\<close>

theorem phase_order:
  "(phase_at valid fs s (Suc k) = phase_at valid fs s k \<or>
    phase_at valid fs s (Suc k) = Suc (phase_at valid fs s k)) \<and>
   (j \<le> k \<longrightarrow> phase_at valid fs s j \<le> phase_at valid fs s k) \<and>
   (j \<le> k \<longrightarrow> phase_at valid fs s j = 3 \<longrightarrow> phase_at valid fs s k = 3) \<and>
   (transition_at valid fs s p m \<longrightarrow> transition_at valid fs s p m' \<longrightarrow> m = m') \<and>
   (phase_at valid fs (init_state ps) (length fs) = 3 \<longrightarrow> p < 3 \<longrightarrow>
      (\<exists>!i. transition_at valid fs (init_state ps) p i)) \<and>
   (accepts_outlines valid \<longrightarrow> 381 \<le> n \<longrightarrow>
      phase_at valid (frames_upto n) (init_state ps) n = 3 \<and>
      transition_at valid (frames_upto n) (init_state ps) 0 60 \<and>
      transition_at valid (frames_upto n) (init_state ps) 1 340 \<and>
      transition_at valid (frames_upto n) (init_state ps) 2 380)"
proof -
  have "\<exists>!i. transition_at valid fs (init_state ps) p i"
    if a: "phase_at valid fs (init_state ps) (length fs) = 3" and b: "p < 3"
  proof -
    have "phase_at valid fs (init_state ps) 0 = 0"
      by (simp add: phase_at_def run_Nil init_state_def)
    with a b transition_exists[of valid fs "init_state ps" p]
    obtain i where "transition_at valid fs (init_state ps) p i" by auto
    then show ?thesis using transition_unique by blast
  qed
  then show ?thesis
    using phase_at_Suc[of valid fs s k] phase_at_mono[of j k valid fs s]
      phase_at_sway[of j k valid fs s] transition_unique[of valid fs s p m m']
      full_run_transitions[of valid n ps]
    by blast
qed

text \<open>With every outline accepted, on the run over the frames 0..399.\<close>

theorem phase_order_witness:
  "accepts_outlines accept_all \<and>
   phase_at accept_all (frames_upto 400) (init_state zero_petals) 381 = 3 \<and>
   phase_at accept_all (frames_upto 400) (init_state zero_petals) 400 = 3 \<and>
   transition_at accept_all (frames_upto 400) (init_state zero_petals) 0 60 \<and>
   transition_at accept_all (frames_upto 400) (init_state zero_petals) 1 340 \<and>
   transition_at accept_all (frames_upto 400) (init_state zero_petals) 2 380 \<and>
   (\<exists>!i. transition_at accept_all (frames_upto 400) (init_state zero_petals) 1 i) \<and>
   phase_at accept_all (frames_upto 400) (init_state zero_petals) 381
     \<le> phase_at accept_all (frames_upto 400) (init_state zero_petals) 400"
proof -
  have a: "phase_at accept_all (frames_upto 400) (init_state zero_petals) 381 = 3"
    by (simp add: phase_at_def take_frames_upto phase_init_381 accept_all_accepts)
  from a accept_all_accepts
    phase_order[where valid = accept_all and fs = "frames_upto 400"
      and s = "init_state zero_petals" and j = 381 and k = 400 and p = 1 and m = 340
      and m' = 340 and ps = zero_petals and n = 400]
  show ?thesis by (simp add: length_frames_upto)
qed

lemma tick_inv: "starts_inv t \<Longrightarrow> starts_inv (tick nl f t)"
  by (cases t) (auto simp: starts_inv_def Let_def nth_list_update)

lemma tick_petal_keeps:
  "starts_inv t \<Longrightarrow> i < length (petal_starts_of t) \<Longrightarrow> petal_starts_of t ! i \<noteq> 0 \<Longrightarrow>
   petal_starts_of (tick nl f t) ! i = petal_starts_of t ! i"
  by (cases t) (auto simp: starts_inv_def petal_starts_of_def Let_def nth_list_update)

lemma tick_lengths:
  "length (petal_starts_of (tick nl f t)) = length (petal_starts_of t)"
  by (cases t) (auto simp: petal_starts_of_def Let_def)

lemma fold_leaf_tick_keeps:
  "i < length ls \<Longrightarrow> ls ! i \<noteq> 0 \<Longrightarrow>
   fold (leaf_tick f) is ls ! i = ls ! i \<and> length (fold (leaf_tick f) is ls) = length ls"
proof (induction "is" arbitrary: ls)
  case Nil
  show ?case by simp
next
  case (Cons j "is")
  have a: "leaf_tick f j ls ! i = ls ! i" "length (leaf_tick f j ls) = length ls"
    using Cons.prems by (cases "i = j"; simp add: leaf_tick_def)+
  with Cons.IH[of "leaf_tick f j ls"] Cons.prems show ?case by simp
qed

lemma fold_leaf_tick_length: "length (fold (leaf_tick f) is ls) = length ls"
  by (induction "is" arbitrary: ls) (simp_all add: leaf_tick_def)

lemma tick_leaf_keeps:
  "i < length (leaf_starts_of t) \<Longrightarrow> leaf_starts_of t ! i \<noteq> 0 \<Longrightarrow>
   leaf_starts_of (tick nl f t) ! i = leaf_starts_of t ! i"
  by (cases t) (auto simp: leaf_starts_of_def Let_def fold_leaf_tick_keeps)

lemma tick_leaf_length:
  "length (leaf_starts_of (tick nl f t)) = length (leaf_starts_of t)"
  by (cases t) (auto simp: leaf_starts_of_def Let_def fold_leaf_tick_length)

lemma petal_starts_of_timing: "petal_starts_of (timing s) = petal_bloom_starts s"
  by (simp add: petal_starts_of_def timing_def)

lemma leaf_starts_of_timing: "leaf_starts_of (timing s) = leaf_unfurl_starts s"
  by (simp add: leaf_starts_of_def timing_def)

lemma step_timing_cases:
  "timing (step valid f s) = timing s \<or>
   timing (step valid f s) = tick (length (leaves s)) f (timing s)"
  using animate_timing[of valid f s] by (cases "raised (animate valid f s)") (simp_all add: step_def)

lemma step_inv: "starts_inv (timing s) \<Longrightarrow> starts_inv (timing (step valid f s))"
  using step_timing_cases[of valid f s] tick_inv[of "timing s" "length (leaves s)" f] by auto

lemma step_start_lengths:
  "length (petal_bloom_starts (step valid f s)) = length (petal_bloom_starts s)"
  "length (leaf_unfurl_starts (step valid f s)) = length (leaf_unfurl_starts s)"
  using step_timing_cases[of valid f s] tick_lengths[of "length (leaves s)" f "timing s"]
    tick_leaf_length[of "length (leaves s)" f "timing s"]
  by (auto simp: petal_starts_of_timing[symmetric] leaf_starts_of_timing[symmetric])

lemma step_petal_keeps:
  assumes "starts_inv (timing s)" "i < length (petal_bloom_starts s)" "petal_bloom_starts s ! i \<noteq> 0"
  shows "petal_bloom_starts (step valid f s) ! i = petal_bloom_starts s ! i"
proof -
  from step_timing_cases[of valid f s] show ?thesis
  proof
    assume "timing (step valid f s) = timing s"
    then have "petal_starts_of (timing (step valid f s)) = petal_starts_of (timing s)" by simp
    then show ?thesis by (simp only: petal_starts_of_timing)
  next
    assume "timing (step valid f s) = tick (length (leaves s)) f (timing s)"
    then have "petal_starts_of (timing (step valid f s)) ! i =
        petal_starts_of (tick (length (leaves s)) f (timing s)) ! i" by simp
    also have "\<dots> = petal_starts_of (timing s) ! i"
      using assms by (intro tick_petal_keeps) (simp_all add: petal_starts_of_timing)
    finally show ?thesis by (simp only: petal_starts_of_timing)
  qed
qed

lemma step_leaf_keeps:
  assumes "i < length (leaf_unfurl_starts s)" "leaf_unfurl_starts s ! i \<noteq> 0"
  shows "leaf_unfurl_starts (step valid f s) ! i = leaf_unfurl_starts s ! i"
proof -
  from step_timing_cases[of valid f s] show ?thesis
  proof
    assume "timing (step valid f s) = timing s"
    then have "leaf_starts_of (timing (step valid f s)) = leaf_starts_of (timing s)" by simp
    then show ?thesis by (simp only: leaf_starts_of_timing)
  next
    assume "timing (step valid f s) = tick (length (leaves s)) f (timing s)"
    then have "leaf_starts_of (timing (step valid f s)) ! i =
        leaf_starts_of (tick (length (leaves s)) f (timing s)) ! i" by simp
    also have "\<dots> = leaf_starts_of (timing s) ! i"
      using assms by (intro tick_leaf_keeps) (simp_all add: leaf_starts_of_timing)
    finally show ?thesis by (simp only: leaf_starts_of_timing)
  qed
qed

lemma run_inv: "starts_inv (timing s) \<Longrightarrow> starts_inv (timing (run valid fs s))"
  by (induction fs rule: rev_induct) (simp_all add: run_Nil run_snoc step_inv)

lemma run_start_lengths:
  "length (petal_bloom_starts (run valid fs s)) = length (petal_bloom_starts s)"
  "length (leaf_unfurl_starts (run valid fs s)) = length (leaf_unfurl_starts s)"
  by (induction fs rule: rev_induct) (simp_all add: run_Nil run_snoc step_start_lengths)

lemma run_petal_keeps:
  "starts_inv (timing s) \<Longrightarrow> i < length (petal_bloom_starts s) \<Longrightarrow> petal_bloom_starts s ! i \<noteq> 0 \<Longrightarrow>
   petal_bloom_starts (run valid gs s) ! i = petal_bloom_starts s ! i"
proof (induction gs rule: rev_induct)
  case Nil
  show ?case by (simp add: run_Nil)
next
  case (snoc g gs)
  then have "petal_bloom_starts (run valid gs s) ! i = petal_bloom_starts s ! i" by simp
  moreover from this snoc.prems
  have "petal_bloom_starts (step valid g (run valid gs s)) ! i = petal_bloom_starts (run valid gs s) ! i"
    by (intro step_petal_keeps) (simp_all add: run_inv run_start_lengths)
  ultimately show ?case by (simp add: run_snoc)
qed

lemma run_leaf_keeps:
  "i < length (leaf_unfurl_starts s) \<Longrightarrow> leaf_unfurl_starts s ! i \<noteq> 0 \<Longrightarrow>
   leaf_unfurl_starts (run valid gs s) ! i = leaf_unfurl_starts s ! i"
proof (induction gs rule: rev_induct)
  case Nil
  show ?case by (simp add: run_Nil)
next
  case (snoc g gs)
  then have "leaf_unfurl_starts (run valid gs s) ! i = leaf_unfurl_starts s ! i" by simp
  moreover from this snoc.prems
  have "leaf_unfurl_starts (step valid g (run valid gs s)) ! i = leaf_unfurl_starts (run valid gs s) ! i"
    by (intro step_leaf_keeps) (simp_all add: run_start_lengths)
  ultimately show ?case by (simp add: run_snoc)
qed

lemma init_inv: "starts_inv (timing (init_state ps))"
  by (simp add: init_timing starts_inv_def)

lemma init_start_lengths:
  "length (petal_bloom_starts (init_state ps)) = 12"
  "length (leaf_unfurl_starts (init_state ps)) = 12"
  by (simp_all add: init_state_def)

text \<open>
  C7. At any point of any run from the initial state (any frames, any path check),
  a petal bloom-start entry or leaf unfurl-start entry that is set (not 0) has the
  same value after any further invocations: once set it never changes and never
  goes back to 0, hence it is set at most once.
\<close>

theorem starts_set_once:
  "(i < 12 \<longrightarrow> petal_bloom_starts (run valid fs (init_state ps)) ! i \<noteq> 0 \<longrightarrow>
      petal_bloom_starts (run valid (fs @ gs) (init_state ps)) ! i =
      petal_bloom_starts (run valid fs (init_state ps)) ! i) \<and>
   (i < 12 \<longrightarrow> leaf_unfurl_starts (run valid fs (init_state ps)) ! i \<noteq> 0 \<longrightarrow>
      leaf_unfurl_starts (run valid (fs @ gs) (init_state ps)) ! i =
      leaf_unfurl_starts (run valid fs (init_state ps)) ! i)"
proof -
  let ?s = "run valid fs (init_state ps)"
  have inv: "starts_inv (timing ?s)" by (simp add: run_inv init_inv)
  have len: "length (petal_bloom_starts ?s) = 12" "length (leaf_unfurl_starts ?s) = 12"
    by (simp_all add: run_start_lengths init_start_lengths)
  show ?thesis
    using run_petal_keeps[OF inv, of i valid gs] run_leaf_keeps[of i ?s valid gs] len
    by (simp add: run_append)
qed

text \<open>With every outline accepted: after the frames 0..380 the first petal's entry is
  80 and the first leaf's is 360, and two more invocations leave both as they are.\<close>

theorem starts_set_once_witness:
  "petal_bloom_starts (run accept_all (frames_upto 381) (init_state zero_petals)) ! 0 = 80 \<and>
   petal_bloom_starts (run accept_all (frames_upto 381 @ [381, 382]) (init_state zero_petals)) ! 0 = 80 \<and>
   leaf_unfurl_starts (run accept_all (frames_upto 381) (init_state zero_petals)) ! 0 = 360 \<and>
   leaf_unfurl_starts (run accept_all (frames_upto 381 @ [381, 382]) (init_state zero_petals)) ! 0 = 360"
proof -
  have "timing (run accept_all (frames_upto 381) (init_state zero_petals)) =
      (3, 12, [80, 100, 120, 140, 160, 180, 200, 220, 240, 260, 280, 300],
       [360, 350, 360, 350, 360, 350, 0, 0, 0, 0, 0, 0])"
    by (simp only: run_accept_timing timeline_381)
  then have a: "petal_bloom_starts (run accept_all (frames_upto 381) (init_state zero_petals)) ! 0 = 80"
    "leaf_unfurl_starts (run accept_all (frames_upto 381) (init_state zero_petals)) ! 0 = 360"
    by (simp_all add: timing_def)
  from a starts_set_once[of 0 accept_all "frames_upto 381" zero_petals "[381, 382]"]
  show ?thesis by simp
qed

lemma bloom_petal_Done:
  "bloom_petal valid f i s = Done s' \<Longrightarrow>
   s' = s\<lparr>petals := (petals s)[i := bloomed f i (petal_bloom_starts s ! i) (petals s ! i)]\<rparr>"
  by (auto simp: bloom_petal_def bloomed_def Let_def create_petal_path_def Path_init_def
      split: if_splits)

lemma bloom_loop_Done:
  "bloom_loop valid f is s = Done s' \<Longrightarrow>
   s' = s\<lparr>petals := fold (\<lambda>i ps. ps[i := bloomed f i (petal_bloom_starts s ! i) (ps ! i)]) is (petals s)\<rparr>"
proof (induction "is" arbitrary: s)
  case Nil
  then show ?case by simp
next
  case (Cons i "is")
  from Cons.prems obtain s1 where s1: "bloom_petal valid f i s = Done s1"
      and r: "bloom_loop valid f is s1 = Done s'"
    by (cases "bloom_petal valid f i s") simp_all
  from bloom_petal_Done[OF s1] have e: "s1 = s\<lparr>petals := (petals s)[i := bloomed f i (petal_bloom_starts s ! i) (petals s ! i)]\<rparr>" .
  from Cons.IH[OF r] show ?case by (simp add: e)
qed

lemma fold_update_nth:
  "distinct is \<Longrightarrow> i < length ps \<Longrightarrow>
   fold (\<lambda>j ps. ps[j := g j (ps ! j)]) is ps ! i = (if i \<in> set is then g i (ps ! i) else ps ! i)"
proof (induction "is" arbitrary: ps)
  case Nil
  show ?case by simp
next
  case (Cons j "is")
  show ?case
  proof (cases "i = j")
    case True
    with Cons.prems Cons.IH[of "ps[j := g j (ps ! j)]"] show ?thesis by simp
  next
    case False
    with Cons.prems Cons.IH[of "ps[j := g j (ps ! j)]"] show ?thesis by simp
  qed
qed

lemma petals_phase_Done_petals:
  assumes "petals_phase valid f s = Done s'" "i < length (petals s)"
  shows "petals s' ! i = bloomed f i (petal_bloom_starts s ! i) (petals s ! i)"
proof -
  let ?s1 = "s\<lparr>label_text := ''Petals Blooming...'', label_alpha := label_fade f\<rparr>"
  from assms(1) obtain s2 where s2: "bloom_loop valid f [0..<length (petals ?s1)] ?s1 = Done s2"
      and e: "s' = petals_done f (trigger_petal f s2)"
    by (cases "bloom_loop valid f [0..<length (petals ?s1)] ?s1") (simp_all add: petals_phase_def)
  have "petals s' = petals s2"
    by (simp add: e petals_done_def trigger_petal_def)
  also have "\<dots> = fold (\<lambda>i ps. ps[i := bloomed f i (petal_bloom_starts s ! i) (ps ! i)])
        [0..<length (petals s)] (petals s)"
    using bloom_loop_Done[OF s2] by simp
  finally show ?thesis
    using assms(2)
      fold_update_nth[of "[0..<length (petals s)]" i "petals s"
        "\<lambda>j. bloomed f j (petal_bloom_starts s ! j)"]
    by simp
qed

lemma animate_Done_petals:
  assumes "animate valid f s = Done s'" "animation_phase s = 1" "i < length (petals s)"
  shows "petals s' ! i = bloomed f i (petal_bloom_starts s ! i) (petals s ! i)"
proof -
  let ?s2 = "s\<lparr>frame_count := f, sway_angle := sway_angle s + sway_speed\<rparr>"
  from assms(1,2) obtain s1 where s1: "petals_phase valid f ?s2 = Done s1" and e: "s' = draw_center s1"
    by (cases "petals_phase valid f ?s2") (simp_all add: animate_def Let_def)
  from petals_phase_Done_petals[OF s1, of i] assms(3) show ?thesis
    by (simp add: e draw_center_def)
qed

lemma step_accept_petals:
  assumes "accepts_outlines valid" "animation_phase s = 1" "i < length (petals s)"
  shows "petals (step valid f s) ! i = bloomed f i (petal_bloom_starts s ! i) (petals s ! i)"
proof -
  from animate_not_raised[OF assms(1), of f s] obtain s' where d: "animate valid f s = Done s'"
    by (cases "animate valid f s") simp_all
  from animate_Done_petals[OF d assms(2,3)] d show ?thesis by (simp add: step_def)
qed


lemma bloom_progress_pos: "st < f \<Longrightarrow> 0 < bloom_progress f st"
  by (simp add: bloom_progress_def)



lemma distance_origin_sq: "(distance (0, 0) v)\<^sup>2 = (fst v)\<^sup>2 + (snd v)\<^sup>2"
  by (simp add: distance_def)




lemma bloomed_started:
  "0 < st \<Longrightarrow> st < f \<Longrightarrow>
   bloomed f i st pt =
     pt\<lparr>p_path := \<lparr>vertices = petal_verts 0 0 (real i * (360 / real num_petals))
                              (petal_length * bloom_progress f st)
                              (petal_width * bloom_progress f st)
                              (bloom_progress f st * 15),
                  codes = petal_codes\<rparr>,
        p_alpha := bloom_progress f st\<rparr>"
  using bloom_progress_pos[of st f] by (simp add: bloomed_def Let_def)


lemma zero_petals_length: "length zero_petals = 12"
  by (simp add: zero_petals_def)

lemma bloom_petal_unstarted:
  "petal_bloom_starts s ! i \<le> 0 \<Longrightarrow> bloom_petal valid f i s = Done s"
  by (simp add: bloom_petal_def)

lemma bloom_loop_unstarted:
  "\<forall>i\<in>set is. petal_bloom_starts s ! i \<le> 0 \<Longrightarrow> bloom_loop valid f is s = Done s"
  by (induction "is") (simp_all add: bloom_petal_unstarted)

lemma animate_unstarted_not_raised:
  assumes "animation_phase s \<le> 1" "\<forall>i<length (petals s). petal_bloom_starts s ! i \<le> 0"
  shows "\<not> raised (animate valid f s)"
proof (cases "animation_phase s = 0")
  case True
  then show ?thesis by (simp add: animate_center_phase)
next
  case False
  with assms(1) have p: "animation_phase s = 1" by simp
  let ?s2 = "s\<lparr>frame_count := f, sway_angle := sway_angle s + sway_speed\<rparr>"
  let ?s1 = "?s2\<lparr>label_text := ''Petals Blooming...'', label_alpha := label_fade f\<rparr>"
  have "bloom_loop valid f [0..<length (petals ?s1)] ?s1 = Done ?s1"
    using assms(2) by (intro bloom_loop_unstarted) simp
  then have "\<not> raised (petals_phase valid f ?s2)"
    by (simp add: petals_phase_def)
  then show ?thesis
    using p by (cases "petals_phase valid f ?s2") (simp_all add: animate_def Let_def)
qed

lemma step_unstarted_timing:
  assumes "animation_phase s \<le> 1" "\<forall>i<length (petals s). petal_bloom_starts s ! i \<le> 0"
  shows "timing (step valid f s) = tick (length (leaves s)) f (timing s)"
  using animate_timing[of valid f s] animate_unstarted_not_raised[OF assms, of valid f]
  by (simp add: step_def)

lemma init_petals: "petals (init_state ps) = ps"
  by (simp add: init_state_def)

lemma run_early:
  "n \<le> 80 \<Longrightarrow>
   timing (run valid (frames_upto n) (init_state zero_petals)) =
     (if n \<le> 60 then 0 else 1, 0, replicate 12 0, replicate 12 0)"
proof (induction n)
  case 0
  show ?case by (simp add: frames_upto_def run_Nil init_timing)
next
  case (Suc n)
  let ?s = "run valid (frames_upto n) (init_state zero_petals)"
  from Suc have t: "timing ?s = (if n \<le> 60 then 0 else 1, 0, replicate 12 0, replicate 12 0)"
    by simp
  then have ph: "animation_phase ?s \<le> 1" and st: "petal_bloom_starts ?s = replicate 12 0"
    by (simp_all add: timing_def split: if_splits)
  have len: "length (petals ?s) = 12" "length (leaves ?s) = 6"
    by (simp_all add: run_lengths init_petals zero_petals_length init_leaves)
  have un: "\<forall>i<length (petals ?s). petal_bloom_starts ?s ! i \<le> 0"
    by (simp add: len st)
  have "timing (step valid (int n) ?s) = tick 6 (int n) (timing ?s)"
    using step_unstarted_timing[OF ph un, of valid "int n"] by (simp only: len)
  also have "\<dots> = tick 6 (int n) (if n \<le> 60 then 0 else 1, 0, replicate 12 0, replicate 12 0)"
    by (simp only: t)
  also have "\<dots> = (if Suc n \<le> 60 then 0 else 1, 0, replicate 12 0, replicate 12 0)"
  proof (cases "n < 60")
    case True
    then show ?thesis by simp
  next
    case False
    show ?thesis
    proof (cases "n = 60")
      case True
      then show ?thesis by simp
    next
      case False
      with \<open>\<not> n < 60\<close> Suc.prems have r: "60 < n" "n < 80" by simp_all
      then have "int n mod 20 \<noteq> 0" by presburger
      with r show ?thesis by (simp add: Let_def)
    qed
  qed
  finally show ?case by (simp add: frames_upto_Suc run_snoc)
qed

lemma run_81:
  "timing (run valid (frames_upto 81) (init_state zero_petals)) =
     (1, 1, [80, 0, 0, 0, 0, 0, 0, 0, 0, 0, 0, 0], replicate 12 0)"
proof -
  let ?s = "run valid (frames_upto 80) (init_state zero_petals)"
  have t: "timing ?s = (1, 0, replicate 12 0, replicate 12 0)"
    using run_early[of 80 valid] by simp
  then have ph: "animation_phase ?s \<le> 1" and st: "petal_bloom_starts ?s = replicate 12 0"
    by (simp_all add: timing_def)
  have len: "length (petals ?s) = 12" "length (leaves ?s) = 6"
    by (simp_all add: run_lengths init_petals zero_petals_length init_leaves)
  have un: "\<forall>i<length (petals ?s). petal_bloom_starts ?s ! i \<le> 0"
    by (simp add: len st)
  have "timing (step valid 80 ?s) = tick 6 80 (timing ?s)"
    using step_unstarted_timing[OF ph un, of valid 80] by (simp only: len)
  also have "\<dots> = tick 6 80 (1, 0, replicate 12 0, replicate 12 0)"
    by (simp only: t)
  also have "\<dots> = (1, 1, [80, 0, 0, 0, 0, 0, 0, 0, 0, 0, 0, 0], replicate 12 0)"
    by code_simp
  finally show ?thesis
    using frames_upto_Suc[of 80] by (simp add: run_snoc)
qed






lemma launch_bound_mono: "(idx::nat) \<le> (n - 1) div 20 - 3 \<Longrightarrow> idx \<le> n div 20 - 3"
proof -
  assume a: "idx \<le> (n - 1) div 20 - 3"
  have "(n - 1) div 20 \<le> n div 20" by (rule div_le_mono) simp
  with a show ?thesis by linarith
qed

lemma launch_bound_step:
  assumes "(n::nat) mod 20 = 0" "60 < n" "idx \<le> (n - 1) div 20 - 3"
  shows "Suc idx \<le> n div 20 - 3"
proof -
  from assms(1) obtain k where k: "n = 20 * k" by (auto simp: mod_eq_0_iff_dvd)
  with assms(2) have k4: "4 \<le> k" by simp
  have "(20 * k - 1) div 20 = k - 1"
  proof -
    from k4 obtain j where j: "k = Suc j" by (cases k) simp_all
    have "20 * Suc j - 1 = 20 * j + 19" by simp
    then have "(20 * Suc j - 1) div 20 = j" by simp
    with j show ?thesis by simp
  qed
  with assms(3) k k4 show ?thesis by simp
qed

lemma int_mod_20: "int n mod 20 = 0 \<longleftrightarrow> n mod 20 = 0"
proof -
  have "int n mod 20 = int (n mod 20)" by (simp add: zmod_int)
  then show ?thesis by simp
qed

lemma launch_inv_keep: "launch_inv n t \<Longrightarrow> launch_inv (Suc n) t"
proof -
  obtain ph idx ps ls where t: "t = (ph, idx, ps, ls)" by (cases t) auto
  assume "launch_inv n t"
  then show ?thesis
    using launch_bound_mono[of idx n] by (simp add: t launch_inv_def)
qed

lemma launch_inv_tick: "launch_inv n t \<Longrightarrow> launch_inv (Suc n) (tick nl (int n) t)"
proof -
  obtain ph idx ps ls where t: "t = (ph, idx, ps, ls)" by (cases t) auto
  assume a: "launch_inv n t"
  then have z: "\<forall>i<length ps. idx \<le> i \<longrightarrow> ps ! i = 0" and e: "n \<le> 60 \<longrightarrow> ph = 0"
    and o: "ph = 0 \<longrightarrow> idx = 0" and b: "idx \<le> (n - 1) div 20 - 3"
    by (simp_all add: t launch_inv_def)
  from b have b': "idx \<le> n div 20 - 3" by (rule launch_bound_mono)
  consider (p0) "ph = 0" | (p1) "ph = 1" | (p2) "ph = 2" | (p3) "ph > 2" by linarith
  then show ?thesis
  proof cases
    case p0
    with o have "idx = 0" by simp
    with p0 z show ?thesis by (simp add: t launch_inv_def)
  next
    case p1
    with e have n: "60 < n" by auto
    show ?thesis
    proof (cases "int n mod 20 = 0 \<and> idx < 12")
      case True
      then have "n mod 20 = 0" by (simp add: int_mod_20)
      from launch_bound_step[OF this n b] have s: "Suc idx \<le> n div 20 - 3" .
      have "\<forall>i<length ps. Suc idx \<le> i \<longrightarrow> ps[idx := int n] ! i = 0"
        using z by simp
      with True p1 s n show ?thesis
        by (simp add: t launch_inv_def Let_def)
    next
      case False
      then have "tick nl (int n) t =
          (if 12 \<le> idx \<and> 40 \<le> int n - last ps then 2 else 1, idx, ps, ls)"
        using p1 by (auto simp: t Let_def)
      with z b' n show ?thesis by (simp add: launch_inv_def)
    qed
  next
    case p2
    with e have n: "60 < n" by auto
    have "\<exists>ph' ls'. tick nl (int n) t = (ph', idx, ps, ls') \<and> ph' \<noteq> 0"
      using p2 by (simp add: t Let_def)
    then obtain ph' ls' where "tick nl (int n) t = (ph', idx, ps, ls')" "ph' \<noteq> 0" by blast
    with z b' n show ?thesis by (simp add: launch_inv_def)
  next
    case p3
    with e have n: "60 < n" by auto
    have "tick nl (int n) t = t" using p3 by (simp add: t)
    with z b' n p3 show ?thesis by (simp add: t launch_inv_def)
  qed
qed

lemma run_launch_inv: "launch_inv n (timing (run valid (frames_upto n) (init_state ps)))"
proof (induction n)
  case 0
  show ?case by (simp add: frames_upto_def run_Nil init_timing launch_inv_def)
next
  case (Suc n)
  let ?s = "run valid (frames_upto n) (init_state ps)"
  from step_timing_cases[of valid "int n" ?s]
  have "launch_inv (Suc n) (timing (step valid (int n) ?s))"
  proof
    assume "timing (step valid (int n) ?s) = timing ?s"
    with launch_inv_keep[OF Suc] show ?thesis by simp
  next
    assume "timing (step valid (int n) ?s) = tick (length (leaves ?s)) (int n) (timing ?s)"
    with launch_inv_tick[OF Suc, of "length (leaves ?s)"] show ?thesis by simp
  qed
  then show ?case by (simp add: frames_upto_Suc run_snoc)
qed

lemma filter_started_bound:
  assumes "\<forall>i<length ps. idx \<le> i \<longrightarrow> ps ! i = (0::int)"
  shows "length (filter (\<lambda>b. 0 < b) ps) \<le> idx"
proof -
  have "filter (\<lambda>b. 0 < b) (drop idx ps) = []"
    using assms by (auto simp: filter_empty_conv in_set_conv_nth)
  then have "filter (\<lambda>b. 0 < b) ps = filter (\<lambda>b. 0 < b) (take idx ps)"
    using append_take_drop_id[of idx ps] filter_append[of "\<lambda>b. 0 < b" "take idx ps" "drop idx ps"]
    by simp
  then have "length (filter (\<lambda>b. 0 < b) ps) \<le> length (take idx ps)"
    by (simp only: length_filter_le)
  then show ?thesis by simp
qed

lemma num_started_bound:
  "num_started (run valid (frames_upto n) (init_state ps)) \<le> (n - 1) div 20 - 3"
proof -
  let ?s = "run valid (frames_upto n) (init_state ps)"
  have "launch_inv n (timing ?s)" by (rule run_launch_inv)
  then have z: "\<forall>i<length (petal_bloom_starts ?s). current_petal_index ?s \<le> i \<longrightarrow>
      petal_bloom_starts ?s ! i = 0" and b: "current_petal_index ?s \<le> (n - 1) div 20 - 3"
    by (simp_all add: launch_inv_def timing_def)
  from filter_started_bound[OF z] b show ?thesis by (simp add: num_started_def)
qed

lemma timeline_100: "foldl (\<lambda>t f. tick 6 f t) (0, 0, replicate 12 0, replicate 12 0) (frames_upto 100)
   = (1, 1, [80, 0, 0, 0, 0, 0, 0, 0, 0, 0, 0, 0], replicate 12 0)"
  by code_simp

lemma timeline_280: "foldl (\<lambda>t f. tick 6 f t) (0, 0, replicate 12 0, replicate 12 0) (frames_upto 280)
   = (1, 10, [80, 100, 120, 140, 160, 180, 200, 220, 240, 260, 0, 0], replicate 12 0)"
  by code_simp

lemma timeline_282: "foldl (\<lambda>t f. tick 6 f t) (0, 0, replicate 12 0, replicate 12 0) (frames_upto 282)
   = (1, 11, [80, 100, 120, 140, 160, 180, 200, 220, 240, 260, 280, 0], replicate 12 0)"
  by code_simp

lemma num_started_timing:
  "timing s = (ph, idx, ps, ls) \<Longrightarrow> num_started s = length (filter (\<lambda>b. 0 < b) ps)"
  by (simp add: timing_def num_started_def)

lemma run_82:
  "timing (run valid (frames_upto 82) (init_state zero_petals)) =
     (1, 1, [80, 0, 0, 0, 0, 0, 0, 0, 0, 0, 0, 0], replicate 12 0)"
proof -
  let ?s = "run valid (frames_upto 81) (init_state zero_petals)"
  have t: "timing ?s = (1, 1, [80, 0, 0, 0, 0, 0, 0, 0, 0, 0, 0, 0], replicate 12 0)"
    by (rule run_81)
  have len: "length (leaves ?s) = 6" by (simp add: run_lengths init_leaves)
  have k: "tick 6 81 (1, 1, [80, 0, 0, 0, 0, 0, 0, 0, 0, 0, 0, 0], replicate 12 0) =
      (1, 1, [80, 0, 0, 0, 0, 0, 0, 0, 0, 0, 0, 0], replicate 12 0)"
    by code_simp
  from step_timing_cases[of valid 81 ?s] have "timing (step valid 81 ?s) = timing ?s"
    by (simp only: len t k) blast
  then show ?thesis
    using frames_upto_Suc[of 81] by (simp add: run_snoc t)
qed

lemma accept_first_petal_alpha:
  assumes "accepts_outlines valid" "animation_phase s = 1" "0 < length (petals s)"
    "petal_bloom_starts s ! 0 = 80" "80 < f"
  shows "p_alpha (petals (step valid f s) ! 0) = bloom_progress f 80"
  using step_accept_petals[OF assms(1,2,3), of f] assms(4,5)
  by (simp add: bloomed_started)

lemma alpha_281:
  assumes "accepts_outlines valid"
  shows "p_alpha (petals (run valid (frames_upto 281) (init_state zero_petals)) ! 0) = 1"
proof -
  let ?s = "run valid (frames_upto 280) (init_state zero_petals)"
  have "timing ?s = (1, 10, [80, 100, 120, 140, 160, 180, 200, 220, 240, 260, 0, 0], replicate 12 0)"
    by (simp only: run_init_timing[OF assms] timeline_280)
  then have a: "animation_phase ?s = 1" "petal_bloom_starts ?s ! 0 = 80"
    by (simp_all add: timing_def)
  have len: "0 < length (petals ?s)" by (simp add: run_lengths init_petals zero_petals_length)
  have "p_alpha (petals (step valid 280 ?s) ! 0) = bloom_progress 280 80"
    by (rule accept_first_petal_alpha[OF assms a(1) len a(2)]) simp
  then show ?thesis
    using frames_upto_Suc[of 280] by (simp add: run_snoc bloom_progress_def)
qed

lemma alpha_101:
  assumes "accepts_outlines valid"
  shows "p_alpha (petals (run valid (frames_upto 101) (init_state zero_petals)) ! 0) = 1 / 2"
proof -
  let ?s = "run valid (frames_upto 100) (init_state zero_petals)"
  have "timing ?s = (1, 1, [80, 0, 0, 0, 0, 0, 0, 0, 0, 0, 0, 0], replicate 12 0)"
    by (simp only: run_init_timing[OF assms] timeline_100)
  then have a: "animation_phase ?s = 1" "petal_bloom_starts ?s ! 0 = 80"
    by (simp_all add: timing_def)
  have len: "0 < length (petals ?s)" by (simp add: run_lengths init_petals zero_petals_length)
  have "p_alpha (petals (step valid 100 ?s) ! 0) = bloom_progress 100 80"
    by (rule accept_first_petal_alpha[OF assms a(1) len a(2)]) simp
  then show ?thesis
    using frames_upto_Suc[of 100] by (simp add: run_snoc bloom_progress_def)
qed

lemma started_81: "num_started (run valid (frames_upto 81) (init_state zero_petals)) = 1"
  using num_started_timing[OF run_81[of valid]] by simp

lemma started_82: "num_started (run valid (frames_upto 82) (init_state zero_petals)) = 1"
  using num_started_timing[OF run_82[of valid]] by simp

lemma started_281:
  assumes "accepts_outlines valid"
  shows "num_started (run valid (frames_upto 281) (init_state zero_petals)) = 11"
    and "petal_bloom_starts (run valid (frames_upto 281) (init_state zero_petals)) ! 11 = 0"
proof -
  have t: "timing (run valid (frames_upto 281) (init_state zero_petals)) =
      (1, 11, [80, 100, 120, 140, 160, 180, 200, 220, 240, 260, 280, 0], replicate 12 0)"
    by (simp only: run_init_timing[OF assms] timeline_281)
  from num_started_timing[OF t]
  show "num_started (run valid (frames_upto 281) (init_state zero_petals)) = 11" by simp
  from t show "petal_bloom_starts (run valid (frames_upto 281) (init_state zero_petals)) ! 11 = 0"
    by (simp add: timing_def)
qed

lemma started_282:
  assumes "accepts_outlines valid"
  shows "num_started (run valid (frames_upto 282) (init_state zero_petals)) = 11"
proof -
  have t: "timing (run valid (frames_upto 282) (init_state zero_petals)) =
      (1, 11, [80, 100, 120, 140, 160, 180, 200, 220, 240, 260, 280, 0], replicate 12 0)"
    by (simp only: run_init_timing[OF assms] timeline_282)
  from num_started_timing[OF t] show ?thesis by simp
qed

lemma started_301:
  assumes "accepts_outlines valid"
  shows "num_started (run valid (frames_upto 301) (init_state zero_petals)) = 12"
proof -
  have t: "timing (run valid (frames_upto 301) (init_state zero_petals)) =
      (1, 12, [80, 100, 120, 140, 160, 180, 200, 220, 240, 260, 280, 300], replicate 12 0)"
    by (simp only: run_init_timing[OF assms] timeline_301)
  from num_started_timing[OF t] show ?thesis by simp
qed

lemma started_upto_300:
  assumes "n \<le> 300"
  shows "num_started (run valid (frames_upto n) (init_state ps)) \<le> 11"
proof -
  from assms have "(n - 1) div 20 \<le> 299 div 20" by (intro div_le_mono) simp
  then have "(n - 1) div 20 - 3 \<le> 11" by simp
  with num_started_bound[of valid n ps] show ?thesis by linarith
qed

text \<open>
  C6 (amended). The petals phase is entered by the invocation for frame 60, and a
  petal is launched at every frame divisible by 20 from frame 80 on. So 20 frames
  into the phase (after the invocation for frame 80, and still after the one for
  frame 81) exactly 1 petal has started, whatever the path check. But 220 frames
  into the phase not all 12 have started: up to frame 299 at most 11 have, whatever
  the path check; when outlines are accepted exactly 11 have started after frame
  280 (and 281), the twelfth starts at frame 300, 240 frames into the phase, and
  after frame 280 the first petal is fully bloomed (opacity 1).
\<close>

theorem petal_launch_schedule:
  "num_started (run valid (frames_upto 81) (init_state zero_petals)) = 1 \<and>
   num_started (run valid (frames_upto 82) (init_state zero_petals)) = 1 \<and>
   (n \<le> 300 \<longrightarrow> num_started (run valid (frames_upto n) (init_state zero_petals)) \<le> 11) \<and>
   (accepts_outlines valid \<longrightarrow>
      num_started (run valid (frames_upto 281) (init_state zero_petals)) = 11 \<and>
      num_started (run valid (frames_upto 282) (init_state zero_petals)) = 11 \<and>
      num_started (run valid (frames_upto 301) (init_state zero_petals)) = 12 \<and>
      p_alpha (petals (run valid (frames_upto 281) (init_state zero_petals)) ! 0) = 1)"
  using started_81[of valid] started_82[of valid] started_upto_300[of n valid zero_petals]
    started_281(1)[of valid] started_282[of valid] started_301[of valid] alpha_281[of valid]
  by blast

text \<open>After the invocations for the frames 0..280, 220 frames into the petals phase:
  with every outline accepted 11 petals have started and the twelfth entry is still
  0; with matplotlib's path check it is not 12 either.\<close>

theorem petal_launch_schedule_counterexample:
  "num_started (run accept_all (frames_upto 281) (init_state zero_petals)) = 11 \<and>
   petal_bloom_starts (run accept_all (frames_upto 281) (init_state zero_petals)) ! 11 = 0 \<and>
   num_started (run mpl_valid (frames_upto 281) (init_state zero_petals)) \<noteq> 12"
proof -
  have "num_started (run mpl_valid (frames_upto 281) (init_state zero_petals)) \<le> 11"
    by (rule started_upto_300) simp
  then show ?thesis
    using started_281[OF accept_all_accepts] by simp
qed

theorem petal_launch_schedule_witness:
  "accepts_outlines accept_all \<and>
   num_started (run accept_all (frames_upto 81) (init_state zero_petals)) = 1 \<and>
   num_started (run accept_all (frames_upto 281) (init_state zero_petals)) \<le> 11 \<and>
   num_started (run accept_all (frames_upto 281) (init_state zero_petals)) = 11 \<and>
   num_started (run accept_all (frames_upto 301) (init_state zero_petals)) = 12 \<and>
   p_alpha (petals (run accept_all (frames_upto 281) (init_state zero_petals)) ! 0) = 1"
  using petal_launch_schedule[of accept_all 281] accept_all_accepts by simp

lemma unfurl_leaf_pair:
  "unfurl_leaf f i s =
     s\<lparr>leaf_unfurl_starts := fst (leaf_pair f i (leaf_unfurl_starts s, leaves s)),
       leaves := snd (leaf_pair f i (leaf_unfurl_starts s, leaves s))\<rparr>"
proof -
  let ?ls = "leaf_tick f i (leaf_unfurl_starts s)"
  let ?s1 = "s\<lparr>leaf_unfurl_starts := ?ls\<rparr>"
  have s1: "(if leaf_unfurl_starts s ! i = 0 \<and> f mod unfurl_duration = (if i mod 2 = 0 then 0 else unfurl_stagger)
                then s\<lparr>leaf_unfurl_starts := (leaf_unfurl_starts s)[i := f]\<rparr>
                else s) = ?s1"
    by (simp add: leaf_tick_def)
  show ?thesis
  proof (cases "0 < ?ls ! i")
    case True
    have "unfurl_leaf f i s = ?s1\<lparr>leaves := (leaves s)[i := unfurled f (?ls ! i) (leaves s ! i)]\<rparr>"
      unfolding unfurl_leaf_def Let_def s1 unfurled_def using True by simp
    then show ?thesis using True by (simp add: leaf_pair_def)
  next
    case False
    have "unfurl_leaf f i s = ?s1"
      unfolding unfurl_leaf_def Let_def s1 using False by simp
    then show ?thesis using False by (simp add: leaf_pair_def)
  qed
qed

lemma fold_unfurl_pair:
  "fold (unfurl_leaf f) is s =
     s\<lparr>leaf_unfurl_starts := fst (fold (leaf_pair f) is (leaf_unfurl_starts s, leaves s)),
       leaves := snd (fold (leaf_pair f) is (leaf_unfurl_starts s, leaves s))\<rparr>"
proof (induction "is" arbitrary: s)
  case Nil
  show ?case by simp
next
  case (Cons i "is")
  let ?x = "leaf_pair f i (leaf_unfurl_starts s, leaves s)"
  have e: "unfurl_leaf f i s = s\<lparr>leaf_unfurl_starts := fst ?x, leaves := snd ?x\<rparr>"
    by (rule unfurl_leaf_pair)
  have "fold (unfurl_leaf f) (i # is) s = fold (unfurl_leaf f) is (unfurl_leaf f i s)" by simp
  also have "\<dots> = (unfurl_leaf f i s)
      \<lparr>leaf_unfurl_starts := fst (fold (leaf_pair f) is
           (leaf_unfurl_starts (unfurl_leaf f i s), leaves (unfurl_leaf f i s))),
       leaves := snd (fold (leaf_pair f) is
           (leaf_unfurl_starts (unfurl_leaf f i s), leaves (unfurl_leaf f i s)))\<rparr>"
    by (rule Cons.IH)
  also have "\<dots> = s\<lparr>leaf_unfurl_starts := fst (fold (leaf_pair f) is ?x),
       leaves := snd (fold (leaf_pair f) is ?x)\<rparr>"
    by (simp add: e)
  finally show ?case by simp
qed

lemma leaf_tick_other: "i \<noteq> j \<Longrightarrow> leaf_tick f j ls ! i = ls ! i"
  by (simp add: leaf_tick_def)

lemma leaf_tick_length: "length (leaf_tick f j ls) = length ls"
  by (simp add: leaf_tick_def)

lemma leaf_tick_same:
  "i < length ls \<Longrightarrow> i < length ls' \<Longrightarrow> ls ! i = ls' ! i \<Longrightarrow>
   leaf_tick f i ls ! i = leaf_tick f i ls' ! i"
  by (simp add: leaf_tick_def)

lemma leaf_pair_lengths:
  "length (fst (leaf_pair f j x)) = length (fst x)"
  "length (snd (leaf_pair f j x)) = length (snd x)"
  by (simp_all add: leaf_pair_def leaf_tick_length)

lemma leaf_pair_other:
  "i \<noteq> j \<Longrightarrow> fst (leaf_pair f j x) ! i = fst x ! i"
  "i \<noteq> j \<Longrightarrow> snd (leaf_pair f j x) ! i = snd x ! i"
  by (simp_all add: leaf_pair_def leaf_tick_other)

lemma fold_leaf_pair_lengths:
  "length (fst (fold (leaf_pair f) is x)) = length (fst x) \<and>
   length (snd (fold (leaf_pair f) is x)) = length (snd x)"
  by (induction "is" arbitrary: x) (simp_all add: leaf_pair_lengths)

lemma fold_leaf_pair_notin:
  "i \<notin> set is \<Longrightarrow>
   fst (fold (leaf_pair f) is x) ! i = fst x ! i \<and> snd (fold (leaf_pair f) is x) ! i = snd x ! i"
  by (induction "is" arbitrary: x) (simp_all add: leaf_pair_other)

lemma fold_leaf_pair_in:
  assumes "distinct is" "i \<in> set is" "i < length (fst x)" "i < length (snd x)"
  shows "fst (fold (leaf_pair f) is x) ! i = leaf_tick f i (fst x) ! i \<and>
         snd (fold (leaf_pair f) is x) ! i =
           (if 0 < leaf_tick f i (fst x) ! i
            then unfurled f (leaf_tick f i (fst x) ! i) (snd x ! i) else snd x ! i)"
  using assms
proof (induction "is" arbitrary: x)
  case Nil
  then show ?case by simp
next
  case (Cons j "is")
  show ?case
  proof (cases "i = j")
    case True
    with Cons.prems have "i \<notin> set is" by simp
    from fold_leaf_pair_notin[OF this, of f "leaf_pair f j x"]
    have n: "fst (fold (leaf_pair f) is (leaf_pair f j x)) ! i = fst (leaf_pair f j x) ! i"
      "snd (fold (leaf_pair f) is (leaf_pair f j x)) ! i = snd (leaf_pair f j x) ! i"
      by simp_all
    have p: "fst (leaf_pair f j x) ! i = leaf_tick f i (fst x) ! i"
      "snd (leaf_pair f j x) ! i =
           (if 0 < leaf_tick f i (fst x) ! i
            then unfurled f (leaf_tick f i (fst x) ! i) (snd x ! i) else snd x ! i)"
      using True Cons.prems(4) by (simp_all add: leaf_pair_def)
    show ?thesis by (simp only: fold_Cons comp_apply n p)
  next
    case False
    with Cons.prems have a: "distinct is" "i \<in> set is" by simp_all
    have b: "i < length (fst (leaf_pair f j x))" "i < length (snd (leaf_pair f j x))"
      using Cons.prems(3,4) by (simp_all add: leaf_pair_lengths)
    have c: "leaf_tick f i (fst (leaf_pair f j x)) ! i = leaf_tick f i (fst x) ! i"
      using False Cons.prems(3) b(1)
      by (intro leaf_tick_same) (simp_all add: leaf_pair_other)
    from Cons.IH[OF a b] False show ?thesis
      by (simp add: c leaf_pair_other)
  qed
qed

lemma stem_phase_leaf:
  assumes "j < length (leaves s)" "j < length (leaf_unfurl_starts s)"
  shows "leaf_unfurl_starts (stem_phase f s) ! j = leaf_tick f j (leaf_unfurl_starts s) ! j \<and>
         leaves (stem_phase f s) ! j =
           (if 0 < leaf_tick f j (leaf_unfurl_starts s) ! j
            then unfurled f (leaf_tick f j (leaf_unfurl_starts s) ! j) (leaves s ! j)
            else leaves s ! j)"
proof -
  let ?s1 = "s\<lparr>label_text := ''Leaves Unfurling...'', label_alpha := label_fade f\<rparr>"
  let ?s2 = "(if f = 0 then ?s1\<lparr>stem_xdata := [0, 0], stem_ydata := [center_radius, stem_height],
                        stem_alpha := 1\<rparr> else ?s1)"
  let ?x = "fold (leaf_pair f) [0..<length (leaves s)] (leaf_unfurl_starts s, leaves s)"
  have l2: "leaves ?s2 = leaves s" "leaf_unfurl_starts ?s2 = leaf_unfurl_starts s" by simp_all
  have "stem_phase f s = leaves_done f (fold (unfurl_leaf f) [0..<length (leaves ?s2)] ?s2)"
    by (simp add: stem_phase_def Let_def)
  also have "fold (unfurl_leaf f) [0..<length (leaves ?s2)] ?s2 =
      ?s2\<lparr>leaf_unfurl_starts := fst ?x, leaves := snd ?x\<rparr>"
    by (simp only: fold_unfurl_pair[of f _ ?s2] l2)
  finally have "leaf_unfurl_starts (stem_phase f s) = fst ?x \<and> leaves (stem_phase f s) = snd ?x"
    by (simp add: leaves_done_def)
  moreover have "fst ?x ! j = leaf_tick f j (leaf_unfurl_starts s) ! j \<and>
         snd ?x ! j =
           (if 0 < leaf_tick f j (leaf_unfurl_starts s) ! j
            then unfurled f (leaf_tick f j (leaf_unfurl_starts s) ! j) (leaves s ! j)
            else leaves s ! j)"
    using fold_leaf_pair_in[of "[0..<length (leaves s)]" j "(leaf_unfurl_starts s, leaves s)" f] assms
    by simp
  ultimately show ?thesis by simp
qed

lemma step_stem_leaf:
  assumes "animation_phase s = 2" "j < length (leaves s)" "j < length (leaf_unfurl_starts s)"
    "0 < leaf_unfurl_starts (step valid f s) ! j"
  shows "leaves (step valid f s) ! j =
           unfurled f (leaf_unfurl_starts (step valid f s) ! j) (leaves s ! j)"
proof -
  let ?s2 = "s\<lparr>frame_count := f, sway_angle := sway_angle s + sway_speed\<rparr>"
  have "animate valid f s = Done (draw_center (stem_phase f ?s2))"
    using assms(1) by (simp add: animate_def Let_def)
  then have e: "leaf_unfurl_starts (step valid f s) = leaf_unfurl_starts (stem_phase f ?s2)"
      "leaves (step valid f s) = leaves (stem_phase f ?s2)"
    by (simp_all add: step_def draw_center_def)
  from stem_phase_leaf[of j ?s2 f] assms(2,3)
  have "leaf_unfurl_starts (stem_phase f ?s2) ! j = leaf_tick f j (leaf_unfurl_starts s) ! j \<and>
         leaves (stem_phase f ?s2) ! j =
           (if 0 < leaf_tick f j (leaf_unfurl_starts s) ! j
            then unfurled f (leaf_tick f j (leaf_unfurl_starts s) ! j) (leaves s ! j)
            else leaves s ! j)"
    by simp
  with assms(4) show ?thesis by (simp add: e)
qed

lemma timeline_361: "foldl (\<lambda>t f. tick 6 f t) (0, 0, replicate 12 0, replicate 12 0) (frames_upto 361)
   = (2, 12, [80, 100, 120, 140, 160, 180, 200, 220, 240, 260, 280, 300],
      [360, 350, 360, 350, 360, 350, 0, 0, 0, 0, 0, 0])"
  by code_simp

lemma timeline_362: "foldl (\<lambda>t f. tick 6 f t) (0, 0, replicate 12 0, replicate 12 0) (frames_upto 362)
   = (2, 12, [80, 100, 120, 140, 160, 180, 200, 220, 240, 260, 280, 300],
      [360, 350, 360, 350, 360, 350, 0, 0, 0, 0, 0, 0])"
  by code_simp

lemma step_frame_count:
  "frame_count (step valid f s) =
     (if animation_phase (step valid f s) = animation_phase s then f else 0)"
  using animate_stem_counter[of valid f s] by (simp add: counter_ok_def step_def)

lemma step_title_alpha:
  "animation_phase s = 0 \<Longrightarrow>
   title_alpha (step valid f s) = min (real_of_int f / real_of_int center_fade_duration) 1"
  by (simp add: step_def animate_center_phase draw_center_def center_phase_def Let_def)

lemma animate_ignores_counter: "animate valid f (s\<lparr>frame_count := c\<rparr>) = animate valid f s"
  by (simp add: animate_def)

lemma animate_Done_alpha:
  assumes "animation_phase s = 1" "i < length (petals s)" "0 < petal_bloom_starts s ! i"
    "petal_bloom_starts s ! i < f" "animate valid f s = Done s'"
  shows "p_alpha (petals s' ! i) =
           min (real_of_int (f - petal_bloom_starts s ! i) / real_of_int bloom_duration) 1"
  using animate_Done_petals[OF assms(5,1,2)] assms(3,4)
  by (simp add: bloomed_started bloom_progress_def)

lemma step_leaf_alpha:
  assumes "animation_phase s = 2" "j < length (leaves s)" "j < length (leaf_unfurl_starts s)"
    "0 < leaf_unfurl_starts (step valid f s) ! j"
  shows "l_alpha (leaves (step valid f s) ! j) =
           min (real_of_int (f - leaf_unfurl_starts (step valid f s) ! j) / real_of_int unfurl_duration) 1"
  using step_stem_leaf[OF assms] by (simp add: unfurled_def Let_def)

lemma frame_count_61_62:
  "frame_count (run valid (frames_upto 61) (init_state zero_petals)) = 0"
  "frame_count (run valid (frames_upto 62) (init_state zero_petals)) = 61"
proof -
  have p: "animation_phase (run valid (frames_upto 60) (init_state zero_petals)) = 0"
    "animation_phase (run valid (frames_upto 61) (init_state zero_petals)) = 1"
    "animation_phase (run valid (frames_upto 62) (init_state zero_petals)) = 1"
    using run_early[of 60 valid] run_early[of 61 valid] run_early[of 62 valid]
    by (simp_all add: timing_def)
  show "frame_count (run valid (frames_upto 61) (init_state zero_petals)) = 0"
    using step_frame_count[of valid 60 "run valid (frames_upto 60) (init_state zero_petals)"]
      frames_upto_Suc[of 60] p by (simp add: run_snoc)
  show "frame_count (run valid (frames_upto 62) (init_state zero_petals)) = 61"
    using step_frame_count[of valid 61 "run valid (frames_upto 61) (init_state zero_petals)"]
      frames_upto_Suc[of 61] p by (simp add: run_snoc)
qed

text \<open>
  C4 (amended). \<^verbatim>\<open>frame_count\<close> is 0 after an invocation that changes the phase and
  the absolute frame after any other, and its value never influences an invocation.
  The interpolations are computed from the absolute frame: in the centre phase the
  title's opacity is \<open>min (frame / 40) 1\<close>; a petal that started at \<open>st < frame\<close>
  gets the opacity \<open>min ((frame - st) / 40) 1\<close> when the invocation returns; a
  started leaf gets \<open>min ((frame - st) / 20) 1\<close>, \<open>st\<close> being its own start entry.
  The elapsed frames count from the element's start, not from the phase entry.
\<close>

theorem progress_from_absolute_frame:
  "frame_count (step valid f s) =
     (if animation_phase (step valid f s) = animation_phase s then f else 0) \<and>
   animate valid f (s\<lparr>frame_count := c\<rparr>) = animate valid f s \<and>
   (animation_phase s = 0 \<longrightarrow>
      title_alpha (step valid f s) = min (real_of_int f / real_of_int center_fade_duration) 1) \<and>
   (animation_phase s = 1 \<longrightarrow> i < length (petals s) \<longrightarrow> 0 < petal_bloom_starts s ! i \<longrightarrow>
    petal_bloom_starts s ! i < f \<longrightarrow> animate valid f s = Done s' \<longrightarrow>
      p_alpha (petals s' ! i) =
        min (real_of_int (f - petal_bloom_starts s ! i) / real_of_int bloom_duration) 1) \<and>
   (animation_phase s = 2 \<longrightarrow> j < length (leaves s) \<longrightarrow> j < length (leaf_unfurl_starts s) \<longrightarrow>
    0 < leaf_unfurl_starts (step valid f s) ! j \<longrightarrow>
      l_alpha (leaves (step valid f s) ! j) =
        min (real_of_int (f - leaf_unfurl_starts (step valid f s) ! j) / real_of_int unfurl_duration) 1)"
  using step_frame_count[where valid = valid and f = f and s = s]
    animate_ignores_counter[where valid = valid and f = f and s = s and c = c]
    step_title_alpha[where valid = valid and f = f and s = s]
    animate_Done_alpha[where valid = valid and f = f and s = s and i = i and s' = s']
    step_leaf_alpha[where valid = valid and f = f and s = s and j = j]
  by blast

text \<open>One invocation after the petals phase is entered the counter is 61, not 1; and
  at frame 100, 40 frames into the phase, the first petal (started at frame 80) has
  opacity 1/2, where elapsed frames over the phase's duration would give 1.\<close>

theorem progress_from_absolute_frame_counterexample:
  "frame_count (run accept_all (frames_upto 61) (init_state zero_petals)) = 0 \<and>
   frame_count (run accept_all (frames_upto 62) (init_state zero_petals)) = 61 \<and>
   frame_count (run mpl_valid (frames_upto 62) (init_state zero_petals)) = 61 \<and>
   animation_phase (run accept_all (frames_upto 100) (init_state zero_petals)) = 1 \<and>
   p_alpha (petals (run accept_all (frames_upto 101) (init_state zero_petals)) ! 0) = 1 / 2 \<and>
   min (real_of_int (100 - 60) / real_of_int bloom_duration) 1 = 1"
proof -
  have "timing (run accept_all (frames_upto 100) (init_state zero_petals)) =
      (1, 1, [80, 0, 0, 0, 0, 0, 0, 0, 0, 0, 0, 0], replicate 12 0)"
    by (simp only: run_accept_timing timeline_100)
  then have "animation_phase (run accept_all (frames_upto 100) (init_state zero_petals)) = 1"
    by (simp add: timing_def)
  then show ?thesis
    using frame_count_61_62[of accept_all] frame_count_61_62(2)[of mpl_valid]
      alpha_101[OF accept_all_accepts]
    by simp
qed

text \<open>With every outline accepted: the title at frame 20, the first petal at frame
  100, and the second leaf (started at frame 350) at frame 361.\<close>

theorem progress_from_absolute_frame_witness:
  "animation_phase (init_state zero_petals) = 0 \<and>
   title_alpha (step accept_all 20 (init_state zero_petals)) = 1 / 2 \<and>
   frame_count (step accept_all 20 (init_state zero_petals)) = 20 \<and>
   animation_phase (run accept_all (frames_upto 100) (init_state zero_petals)) = 1 \<and>
   petal_bloom_starts (run accept_all (frames_upto 100) (init_state zero_petals)) ! 0 = 80 \<and>
   animate accept_all 100 (run accept_all (frames_upto 100) (init_state zero_petals)) =
     Done (step accept_all 100 (run accept_all (frames_upto 100) (init_state zero_petals))) \<and>
   p_alpha (petals (step accept_all 100
       (run accept_all (frames_upto 100) (init_state zero_petals))) ! 0) = 1 / 2 \<and>
   animation_phase (run accept_all (frames_upto 361) (init_state zero_petals)) = 2 \<and>
   leaf_unfurl_starts (step accept_all 361
       (run accept_all (frames_upto 361) (init_state zero_petals))) ! 1 = 350 \<and>
   l_alpha (leaves (step accept_all 361
       (run accept_all (frames_upto 361) (init_state zero_petals))) ! 1) = 11 / 20"
proof -
  let ?I = "init_state zero_petals"
  let ?A = "run accept_all (frames_upto 100) (init_state zero_petals)"
  let ?L = "run accept_all (frames_upto 361) (init_state zero_petals)"
  have i0: "animation_phase ?I = 0" by (simp add: init_state_def)
  have "animation_phase (step accept_all 20 ?I) = 0"
    using step_timing_center[OF i0, of accept_all 20]
    by (simp add: init_timing init_leaves) (simp add: timing_def)
  then have i1: "animation_phase (step accept_all 20 ?I) = animation_phase ?I"
    using i0 by simp
  have ta: "timing ?A = (1, 1, [80, 0, 0, 0, 0, 0, 0, 0, 0, 0, 0, 0], replicate 12 0)"
    by (simp only: run_accept_timing timeline_100)
  then have a1: "animation_phase ?A = 1" and a2: "petal_bloom_starts ?A ! 0 = 80"
    by (simp_all add: timing_def)
  have a3: "0 < length (petals ?A)" by (simp add: run_lengths init_petals zero_petals_length)
  have a4: "animate accept_all 100 ?A = Done (step accept_all 100 ?A)"
    using animate_not_raised[OF accept_all_accepts, of 100 ?A]
    by (cases "animate accept_all 100 ?A") (simp_all add: step_def)
  have tl: "timing ?L = (2, 12, [80, 100, 120, 140, 160, 180, 200, 220, 240, 260, 280, 300],
      [360, 350, 360, 350, 360, 350, 0, 0, 0, 0, 0, 0])"
    by (simp only: run_accept_timing timeline_361)
  then have l1: "animation_phase ?L = 2" and l2: "length (leaf_unfurl_starts ?L) = 12"
    by (simp_all add: timing_def)
  have l3: "length (leaves ?L) = 6" by (simp add: run_lengths init_leaves)
  have "step accept_all 361 ?L = run accept_all (frames_upto 362) (init_state zero_petals)"
    using frames_upto_Suc[of 361] by (simp add: run_snoc)
  moreover have "timing (run accept_all (frames_upto 362) (init_state zero_petals)) =
      (2, 12, [80, 100, 120, 140, 160, 180, 200, 220, 240, 260, 280, 300],
      [360, 350, 360, 350, 360, 350, 0, 0, 0, 0, 0, 0])"
    by (simp only: run_accept_timing timeline_362)
  ultimately have l4: "leaf_unfurl_starts (step accept_all 361 ?L) ! 1 = 350"
    by (simp add: timing_def)
  note w1 = progress_from_absolute_frame[where valid = accept_all and f = 20 and s = ?I]
  note w2 = progress_from_absolute_frame[where valid = accept_all and f = 100 and s = ?A
      and i = 0 and s' = "step accept_all 100 ?A"]
  note w3 = progress_from_absolute_frame[where valid = accept_all and f = 361 and s = ?L
      and j = 1]
  have r1: "title_alpha (step accept_all 20 ?I) = 1 / 2"
    using w1 i0 by simp
  have r2: "frame_count (step accept_all 20 ?I) = 20"
    using w1 i1 by simp
  have r3: "p_alpha (petals (step accept_all 100 ?A) ! 0) = 1 / 2"
    using w2 a1 a2 a3 a4 by simp
  have r4: "l_alpha (leaves (step accept_all 361 ?L) ! 1) = 11 / 20"
    using w3 l1 l2 l3 l4 by simp
  from i0 r1 r2 a1 a2 a4 r3 l1 l4 r4 show ?thesis by (intro conjI)
qed

end
